theory Spec2Isabelle
  imports Complex_Main "HOL-Library.Monad_Syntax"
begin

section \<open>Data model\<close>

text \<open>
  The sketch \<^verbatim>\<open>ESP32-fluid-simulation.ino\<close> holds the two tasks \<^verbatim>\<open>sim_routine\<close> and
  \<^verbatim>\<open>draw_routine\<close>, and \<^verbatim>\<open>setup\<close>. Single-precision floats are idealised as reals
  throughout; the grid is addressed by signed integers, because the ring of ghost cells
  lies at row and column \<open>-1\<close> and at row \<open>rows\<close> and column \<open>cols\<close>.
\<close>

subsection \<open>Build-time configuration\<close>

definition N_ROWS :: int where
  "N_ROWS = 80"

definition N_COLS :: int where
  "N_COLS = 60"

definition DT :: real where
  "DT = 1 / 10"

subsection \<open>Vector\<close>

text \<open>
  Modelled from the spec: the type \<^verbatim>\<open>Vector<float>\<close> of \<^verbatim>\<open>Vector.h\<close>, which is missing.
  Two components \<open>x\<close> and \<open>y\<close> (here \<open>vx\<close> and \<open>vy\<close>), \<open>x\<close> along the columns and \<open>y\<close> along
  the rows, with addition, accumulation and scaling component by component.
\<close>

datatype Vector = Vector (vx: real) (vy: real)

instantiation Vector :: real_vector
begin

definition zero_Vector :: Vector where
  "zero_Vector = Vector 0 0"

definition plus_Vector :: "Vector \<Rightarrow> Vector \<Rightarrow> Vector" where
  "plus_Vector a b = Vector (vx a + vx b) (vy a + vy b)"

definition uminus_Vector :: "Vector \<Rightarrow> Vector" where
  "uminus_Vector a = Vector (- vx a) (- vy a)"

definition minus_Vector :: "Vector \<Rightarrow> Vector \<Rightarrow> Vector" where
  "minus_Vector a b = Vector (vx a - vx b) (vy a - vy b)"

definition scaleR_Vector :: "real \<Rightarrow> Vector \<Rightarrow> Vector" where
  "scaleR_Vector r a = Vector (r * vx a) (r * vy a)"

instance
  by standard
     (simp_all add: zero_Vector_def plus_Vector_def uminus_Vector_def minus_Vector_def
        scaleR_Vector_def algebra_simps)

end

definition vnorm :: "Vector \<Rightarrow> real" where
  "vnorm a = sqrt ((vx a)\<^sup>2 + (vy a)\<^sup>2)"

subsection \<open>Field\<close>

text \<open>
  Modelled from the spec: the type \<^verbatim>\<open>Field<T>\<close> of \<^verbatim>\<open>Field.h\<close>, which is missing, and
  its accessor \<^verbatim>\<open>index\<close>. An interior of \<open>rows \<times> cols\<close> cells inside one ring of ghost
  cells, and a boundary policy fixed at construction. The cells are a function of the
  signed cell coordinates; \<open>index\<close> reads a cell and \<open>set_index\<close> is the assignment through
  the reference that \<^verbatim>\<open>index(i, j)\<close> returns. The elements \<^verbatim>\<open>iram_float_t\<close> of the colour
  fields (\<^verbatim>\<open>iram_float.h\<close>, missing as well) are floats kept in another memory: reals here.
\<close>

datatype BoundaryCondition = DONTCARE | CLONE | NEGATIVE

record 'a Field =
  rows :: int
  cols :: int
  policy :: BoundaryCondition
  cells :: "int \<times> int \<Rightarrow> 'a"

definition index :: "'a Field \<Rightarrow> int \<Rightarrow> int \<Rightarrow> 'a" where
  "index f i j = cells f (i, j)"

definition set_index :: "'a Field \<Rightarrow> int \<Rightarrow> int \<Rightarrow> 'a \<Rightarrow> 'a Field" where
  "set_index f i j v = f\<lparr>cells := (cells f)((i, j) := v)\<rparr>"

definition const_field :: "int \<Rightarrow> int \<Rightarrow> BoundaryCondition \<Rightarrow> 'a \<Rightarrow> 'a Field" where
  "const_field r c bc x = \<lparr>rows = r, cols = c, policy = bc, cells = \<lambda>_. x\<rparr>"

definition interior :: "'a Field \<Rightarrow> int \<Rightarrow> int \<Rightarrow> bool" where
  "interior f i j = (0 \<le> i \<and> i < rows f \<and> 0 \<le> j \<and> j < cols f)"

section \<open>The simulation task: external forcing\<close>

text \<open>
  Lines 102 to 109 of \<^verbatim>\<open>sim_routine\<close>. The BOOT button is read on pin 0, which is
  pulled up: the input is asserted when the pin reads \<open>LOW\<close>.
\<close>

datatype PinLevel = LOW | HIGH

definition center_i :: int where
  "center_i = N_ROWS div 2"

definition center_j :: int where
  "center_j = N_COLS div 2"

definition dv :: Vector where
  "dv = Vector 0 10"

definition add_at :: "int \<Rightarrow> int \<Rightarrow> Vector \<Rightarrow> Vector Field \<Rightarrow> Vector Field" where
  "add_at i j d v = set_index v i j (index v i j + d)"

definition apply_force :: "PinLevel \<Rightarrow> Vector Field \<Rightarrow> Vector Field" where
  "apply_force pin v =
     (if pin = LOW then
        add_at (center_i + 1) (center_j + 1) dv
          (add_at center_i (center_j + 1) dv
            (add_at (center_i + 1) center_j dv
              (add_at center_i center_j dv v)))
      else v)"

definition forced_cells :: "(int \<times> int) set" where
  "forced_cells =
     {(N_ROWS div 2, N_COLS div 2), (N_ROWS div 2 + 1, N_COLS div 2),
      (N_ROWS div 2, N_COLS div 2 + 1), (N_ROWS div 2 + 1, N_COLS div 2 + 1)}"


section \<open>The simulation task: committing the colour fields\<close>

text \<open>
  Lines 130 to 147 of \<^verbatim>\<open>sim_routine\<close>. The globals \<^verbatim>\<open>red_field\<close>,
  \<^verbatim>\<open>green_field\<close> and \<^verbatim>\<open>blue_field\<close> are pointers, so the colour fields live in an
  explicit heap, from addresses to what the buffer at the address holds. Dereferencing a
  pointer that is not live, or deleting one, is undefined
  behaviour in the source and \<open>None\<close> here. The allocator's choice of address for
  \<^verbatim>\<open>new\<close>, and the unspecified contents of the field it constructs, are arguments; an
  address that is live cannot come from the allocator, and gives \<open>None\<close> as well.

  \<^verbatim>\<open>semilagrangian_advect\<close> is declared in \<^verbatim>\<open>operations.h\<close>; the commit step takes it as
  the argument \<open>adv\<close>, a function of the destination's previous contents, the source,
  the velocity and the time step that returns the destination's new contents. It is never
  run in place.
\<close>

type_synonym addr = nat

type_synonym 'a heap = "addr \<rightharpoonup> 'a Field"

type_synonym ('a, 'v) advect = "'a Field \<Rightarrow> 'a Field \<Rightarrow> 'v \<Rightarrow> real \<Rightarrow> 'a Field"

record 'b color_state =
  red_field :: addr
  green_field :: addr
  blue_field :: addr
  heap :: "addr \<rightharpoonup> 'b"

definition new_at :: "addr \<Rightarrow> 'a Field \<Rightarrow> 'a heap \<Rightarrow> 'a heap option" where
  "new_at a f h = (if a \<in> dom h then None else Some (h(a \<mapsto> f)))"

definition delete_at :: "addr \<Rightarrow> 'a heap \<Rightarrow> 'a heap option" where
  "delete_at a h = (if a \<in> dom h then Some (h(a := None)) else None)"

definition advect_at ::
  "('a, 'v) advect \<Rightarrow> addr \<Rightarrow> addr \<Rightarrow> 'v \<Rightarrow> 'a heap \<Rightarrow> 'a heap option" where
  "advect_at adv dst src vel h =
     (case h dst of
        None \<Rightarrow> None
      | Some d \<Rightarrow>
          (case h src of
             None \<Rightarrow> None
           | Some s \<Rightarrow> if dst = src then None else Some (h(dst \<mapsto> adv d s vel DT))))"

definition commit ::
  "('a, 'v) advect \<Rightarrow> addr \<Rightarrow> 'a Field \<Rightarrow> 'v \<Rightarrow> 'a Field color_state \<Rightarrow> 'a Field color_state option" where
  "commit adv a f vel s =
     do {
       h0 \<leftarrow> new_at a f (heap s);
       let temp_color_field = a;
       h1 \<leftarrow> advect_at adv temp_color_field (red_field s) vel h0;
       let temp = red_field s;
       let red = temp_color_field;
       let temp_color_field = temp;
       h2 \<leftarrow> advect_at adv temp_color_field (green_field s) vel h1;
       let temp = green_field s;
       let green = temp_color_field;
       let temp_color_field = temp;
       h3 \<leftarrow> advect_at adv temp_color_field (blue_field s) vel h2;
       let temp = blue_field s;
       let blue = temp_color_field;
       let temp_color_field = temp;
       h4 \<leftarrow> delete_at temp_color_field h3;
       Some \<lparr>red_field = red, green_field = green, blue_field = blue, heap = h4\<rparr>
     }"

text \<open>
  The naive scheme the rotation is compared with: every channel is advected into a fresh
  buffer of its own, the three pointers are redirected, and the three old buffers are
  deleted.
\<close>

definition commit_naive ::
  "('a, 'v) advect \<Rightarrow> addr \<times> addr \<times> addr \<Rightarrow> 'a Field \<times> 'a Field \<times> 'a Field \<Rightarrow> 'v
     \<Rightarrow> 'a Field color_state \<Rightarrow> 'a Field color_state option" where
  "commit_naive adv as fs vel s =
     (case (as, fs) of ((a1, a2, a3), (f1, f2, f3)) \<Rightarrow>
        do {
          h0 \<leftarrow> new_at a1 f1 (heap s);
          h1 \<leftarrow> new_at a2 f2 h0;
          h2 \<leftarrow> new_at a3 f3 h1;
          h3 \<leftarrow> advect_at adv a1 (red_field s) vel h2;
          h4 \<leftarrow> advect_at adv a2 (green_field s) vel h3;
          h5 \<leftarrow> advect_at adv a3 (blue_field s) vel h4;
          h6 \<leftarrow> delete_at (red_field s) h5;
          h7 \<leftarrow> delete_at (green_field s) h6;
          h8 \<leftarrow> delete_at (blue_field s) h7;
          Some \<lparr>red_field = a1, green_field = a2, blue_field = a3, heap = h8\<rparr>
        })"

text \<open>What a reader of the three channels sees: the contents behind the three pointers.\<close>

definition channels :: "'b color_state \<Rightarrow> 'b option \<times> 'b option \<times> 'b option" where
  "channels s = (heap s (red_field s), heap s (green_field s), heap s (blue_field s))"

definition observe ::
  "('b \<Rightarrow> 'o) \<Rightarrow> 'b color_state \<Rightarrow> 'o option \<times> 'o option \<times> 'o option" where
  "observe obs s =
     (map_option obs (heap s (red_field s)), map_option obs (heap s (green_field s)),
      map_option obs (heap s (blue_field s)))"

text \<open>
  Everything a field object holds: its dimensions, its policy, and the cells of its
  buffer, interior and ring.
\<close>

definition whole_field :: "'a Field \<Rightarrow> int \<times> int \<times> BoundaryCondition \<times> (int \<times> int \<Rightarrow> 'a option)" where
  "whole_field f =
     (rows f, cols f, policy f,
      \<lambda>(i, j). if - 1 \<le> i \<and> i \<le> rows f \<and> - 1 \<le> j \<and> j \<le> cols f
               then Some (cells f (i, j)) else None)"

text \<open>A small colour state: three live buffers at addresses 0, 1 and 2.\<close>

definition example_colors :: "real Field color_state" where
  "example_colors =
     \<lparr>red_field = 0, green_field = 1, blue_field = 2,
      heap = [0 \<mapsto> const_field 80 60 CLONE 1, 1 \<mapsto> const_field 80 60 CLONE 2,
              2 \<mapsto> const_field 80 60 CLONE 3]\<rparr>"

section \<open>Loops over the interior\<close>

text \<open>
  \<^verbatim>\<open>for(int i = 0; i < R; i++) for(int j = 0; j < C; j++) body\<close>: the rows in order, and
  in each row the columns in order.
\<close>

definition for_cells :: "int \<Rightarrow> int \<Rightarrow> (int \<Rightarrow> int \<Rightarrow> 's \<Rightarrow> 's) \<Rightarrow> 's \<Rightarrow> 's" where
  "for_cells R C body s = fold (\<lambda>i. fold (\<lambda>j. body i j) [0..C - 1]) [0..R - 1] s"

section \<open>Initialisation of the fields\<close>

text \<open>
  Lines 234 to 248 of \<^verbatim>\<open>setup\<close>. \<^verbatim>\<open>atan2\<close> is the C library's, on reals: its value lies
  in \<open>(-\<pi>, \<pi>]\<close>, and it is \<open>0\<close> at the origin. The integer differences are converted
  to floating point by the call.
\<close>

definition PI :: real where
  "PI = pi"

definition atan2 :: "real \<Rightarrow> real \<Rightarrow> real" where
  "atan2 y x =
     (if 0 < x then arctan (y / x)
      else if x < 0 \<and> 0 \<le> y then arctan (y / x) + pi
      else if x < 0 \<and> y < 0 then arctan (y / x) - pi
      else if 0 < y then pi / 2
      else if y < 0 then - pi / 2
      else 0)"

record grids =
  velocity :: "Vector Field"
  red :: "real Field"
  green :: "real Field"
  blue :: "real Field"

definition init_cell :: "int \<Rightarrow> int \<Rightarrow> grids \<Rightarrow> grids" where
  "init_cell i j s =
     (let s = s\<lparr>red := set_index (red s) i j 0\<rparr>;
          s = s\<lparr>green := set_index (green s) i j 0\<rparr>;
          s = s\<lparr>blue := set_index (blue s) i j 0\<rparr>;
          angle = atan2 (of_int (i - center_i)) (of_int (j - center_j));
          s = (if angle \<ge> - PI \<and> angle < - PI / 3 then s\<lparr>red := set_index (red s) i j 1\<rparr>
               else if angle \<ge> - PI / 3 \<and> angle < PI / 3
                 then s\<lparr>green := set_index (green s) i j 1\<rparr>
               else s\<lparr>blue := set_index (blue s) i j 1\<rparr>)
      in s\<lparr>velocity := set_index (velocity s) i j (Vector 0 0)\<rparr>)"

definition init_fields :: "grids \<Rightarrow> grids" where
  "init_fields s = for_cells N_ROWS N_COLS init_cell s"

text \<open>The angle of cell \<open>(i, j)\<close> around the centre of the domain.\<close>

definition sector :: "int \<Rightarrow> int \<Rightarrow> real" where
  "sector i j = atan2 (of_int (i - N_ROWS div 2)) (of_int (j - N_COLS div 2))"

text \<open>Fields as \<^verbatim>\<open>new\<close> leaves them before \<^verbatim>\<open>setup\<close> writes them: here, all cells 5.\<close>

definition example_grids :: grids where
  "example_grids =
     \<lparr>velocity = const_field 80 60 NEGATIVE (Vector 5 5), red = const_field 80 60 CLONE 5,
      green = const_field 80 60 CLONE 5, blue = const_field 80 60 CLONE 5\<rparr>"

section \<open>The simulation task: one tick\<close>

text \<open>
  The operators of \<^verbatim>\<open>operations.h\<close> that \<^verbatim>\<open>sim_routine\<close> calls. The header is not part
  of the sketch, so a tick takes them as arguments; each maps the contents of the field
  it writes, and the fields it reads, to the new contents of the field it writes.
\<close>

record operators =
  op_advect_velocity :: "(Vector, Vector Field) advect"
  op_advect_color :: "(real, Vector Field) advect"
  op_divergence :: "real Field \<Rightarrow> Vector Field \<Rightarrow> real Field"
  op_gauss_seidel_pressure :: "real Field \<Rightarrow> real Field \<Rightarrow> real Field"
  op_gradient_and_subtract :: "Vector Field \<Rightarrow> real Field \<Rightarrow> Vector Field"

text \<open>
  Modelled from the spec: the constructor of \<^verbatim>\<open>Field.h\<close>, which is missing.
  \<^verbatim>\<open>new Field<T>(N_ROWS, N_COLS, bc)\<close> fixes the dimensions and the policy and leaves the
  cells unspecified: whatever they hold is an input of the tick, as are the level of pin
  0 and the address the allocator returns for the spare colour buffer.
\<close>

definition new_Field :: "int \<Rightarrow> int \<Rightarrow> BoundaryCondition \<Rightarrow> (int \<times> int \<Rightarrow> 'a) \<Rightarrow> 'a Field" where
  "new_Field r c bc junk = \<lparr>rows = r, cols = c, policy = bc, cells = junk\<rparr>"

record tick_input =
  pin0 :: PinLevel
  junk_temp_vector :: "int \<times> int \<Rightarrow> Vector"
  junk_divergence :: "int \<times> int \<Rightarrow> real"
  junk_pressure :: "int \<times> int \<Rightarrow> real"
  addr_temp_color :: addr
  junk_temp_color :: "int \<times> int \<Rightarrow> real"
  junk_new_divergence :: "int \<times> int \<Rightarrow> real"

text \<open>
  The state of the task between two ticks: the velocity field, the colour fields behind
  their pointers, and the two diagnostics that the report prints (lines 204 to 209).
  \<^verbatim>\<open>max_abs_pct_density\<close> is a global that starts at 0;
  \<^verbatim>\<open>current_abs_pct_density\<close> is the value the last tick computed.
\<close>

record sim_state =
  velocity_field :: "Vector Field"
  colors :: "real Field color_state"
  current_abs_pct_density :: real
  max_abs_pct_density :: real

text \<open>Lines 165 to 173: the scan of the divergence after projection.\<close>

definition scan_cell :: "real Field \<Rightarrow> int \<Rightarrow> int \<Rightarrow> real \<Rightarrow> real" where
  "scan_cell d i j current_abs_divergence =
     (if \<bar>index d i j\<bar> > current_abs_divergence then \<bar>index d i j\<bar>
      else current_abs_divergence)"

definition max_abs_divergence :: "real Field \<Rightarrow> real" where
  "max_abs_divergence d = for_cells N_ROWS N_COLS (scan_cell d) 0"

definition diagnostic :: "real Field \<Rightarrow> real \<Rightarrow> real \<times> real" where
  "diagnostic new_divergence_field max_pct =
     (let current_abs_divergence = max_abs_divergence new_divergence_field;
          current_pct = 100 * current_abs_divergence * DT
      in (current_pct, if current_pct > max_pct then current_pct else max_pct))"

text \<open>
  One iteration of the loop of \<^verbatim>\<open>sim_routine\<close>, lines 87 to 174. The time stamps and
  the text of the report are left out.
\<close>

definition tick :: "operators \<Rightarrow> tick_input \<Rightarrow> sim_state \<Rightarrow> sim_state option" where
  "tick ops inp s =
     (let temp_vector_field = new_Field N_ROWS N_COLS NEGATIVE (junk_temp_vector inp);
          v = op_advect_velocity ops temp_vector_field (velocity_field s) (velocity_field s) DT;
          v = apply_force (pin0 inp) v;
          divergence_field = new_Field N_ROWS N_COLS DONTCARE (junk_divergence inp);
          pressure_field = new_Field N_ROWS N_COLS CLONE (junk_pressure inp);
          divergence_field = op_divergence ops divergence_field v;
          pressure_field = op_gauss_seidel_pressure ops pressure_field divergence_field;
          v = op_gradient_and_subtract ops v pressure_field
      in do {
        c \<leftarrow> commit (op_advect_color ops) (addr_temp_color inp)
               (new_Field N_ROWS N_COLS CLONE (junk_temp_color inp)) v (colors s);
        let new_divergence_field =
              op_divergence ops (new_Field N_ROWS N_COLS DONTCARE (junk_new_divergence inp)) v;
        let (current_pct, max_pct) = diagnostic new_divergence_field (max_abs_pct_density s);
        Some \<lparr>velocity_field = v, colors = c, current_abs_pct_density = current_pct,
               max_abs_pct_density = max_pct\<rparr>
      })"


text \<open>
  The largest absolute value, over the interior cells, of the divergence that the
  operator computes for a velocity field.
\<close>

definition interior_cells :: "(int \<times> int) set" where
  "interior_cells = {0..<N_ROWS} \<times> {0..<N_COLS}"

definition abs_max :: "real Field \<Rightarrow> real" where
  "abs_max d = Max ((\<lambda>(i, j). \<bar>index d i j\<bar>) ` interior_cells)"



definition example_input :: "addr \<Rightarrow> real \<Rightarrow> tick_input" where
  "example_input a x =
     \<lparr>pin0 = HIGH, junk_temp_vector = (\<lambda>_. Vector 0 0), junk_divergence = (\<lambda>_. 0),
      junk_pressure = (\<lambda>_. 0), addr_temp_color = a, junk_temp_color = (\<lambda>_. 0),
      junk_new_divergence = (\<lambda>_. x)\<rparr>"


definition example_state :: sim_state where
  "example_state =
     \<lparr>velocity_field = const_field 80 60 NEGATIVE (Vector 0 0), colors = example_colors,
      current_abs_pct_density = 0, max_abs_pct_density = 0\<rparr>"

section \<open>The operators of \<^verbatim>\<open>Field.h\<close> and \<^verbatim>\<open>operations.h\<close>\<close>

text \<open>
  The two headers are included by the sketch but are not part of it. The operators below
  are written from the specification's description of them; the sketch's own code takes
  them as arguments (\<open>operators\<close>).
\<close>

subsection \<open>Boundary refresh\<close>

text \<open>
  Modelled from the spec: \<^verbatim>\<open>Field::update_boundary\<close> of \<^verbatim>\<open>Field.h\<close>, which is missing.
  A ghost cell takes the value of the interior cell next to it: unchanged under \<open>CLONE\<close>,
  with the component normal to the wall negated under \<open>NEGATIVE\<close>; under \<open>DONTCARE\<close>
  nothing is written. The refresh is linear in \<open>rows + cols\<close>, writes ghost cells only and
  writes every one of them: one pass along the top and bottom walls, then one pass along
  the left and right walls over the full height of the ring, its two ghost rows
  included. A corner of the ring lies on two walls; the second pass gives it the value of
  the ghost cell beside it, so it ends with the interior cell diagonally next to it,
  negated across both walls under \<open>NEGATIVE\<close>. The rows run along \<open>i\<close> and the \<open>y\<close>
  component, the columns along \<open>j\<close> and the \<open>x\<close> component, as in the divergence stencil.
  What negation means for the cell type is the argument \<open>mirror\<close>.
\<close>

datatype Wall = Top | Bottom | Left | Right

definition negate_normal :: "Wall \<Rightarrow> Vector \<Rightarrow> Vector" where
  "negate_normal w a =
     (case w of
        Top \<Rightarrow> Vector (vx a) (- vy a)
      | Bottom \<Rightarrow> Vector (vx a) (- vy a)
      | Left \<Rightarrow> Vector (- vx a) (vy a)
      | Right \<Rightarrow> Vector (- vx a) (vy a))"

definition negate_scalar :: "Wall \<Rightarrow> real \<Rightarrow> real" where
  "negate_scalar w a = - a"

definition ghost_value :: "BoundaryCondition \<Rightarrow> (Wall \<Rightarrow> 'a \<Rightarrow> 'a) \<Rightarrow> Wall \<Rightarrow> 'a \<Rightarrow> 'a" where
  "ghost_value bc mirror w a = (case bc of NEGATIVE \<Rightarrow> mirror w a | _ \<Rightarrow> a)"

definition for_span :: "int \<Rightarrow> int \<Rightarrow> (int \<Rightarrow> 's \<Rightarrow> 's) \<Rightarrow> 's \<Rightarrow> 's" where
  "for_span lo hi body s = fold body [lo..hi] s"

definition boundary_column :: "(Wall \<Rightarrow> 'a \<Rightarrow> 'a) \<Rightarrow> int \<Rightarrow> 'a Field \<Rightarrow> 'a Field" where
  "boundary_column mirror j f =
     (let f = set_index f (- 1) j (ghost_value (policy f) mirror Top (index f 0 j))
      in set_index f (rows f) j (ghost_value (policy f) mirror Bottom (index f (rows f - 1) j)))"

definition boundary_row :: "(Wall \<Rightarrow> 'a \<Rightarrow> 'a) \<Rightarrow> int \<Rightarrow> 'a Field \<Rightarrow> 'a Field" where
  "boundary_row mirror i f =
     (let f = set_index f i (- 1) (ghost_value (policy f) mirror Left (index f i 0))
      in set_index f i (cols f) (ghost_value (policy f) mirror Right (index f i (cols f - 1))))"

definition update_boundary :: "(Wall \<Rightarrow> 'a \<Rightarrow> 'a) \<Rightarrow> 'a Field \<Rightarrow> 'a Field" where
  "update_boundary mirror f =
     (if policy f = DONTCARE then f
      else for_span (- 1) (rows f) (boundary_row mirror)
             (for_span 0 (cols f - 1) (boundary_column mirror) f))"

text \<open>
  The ghost cells of a field, and the index of the interior cell next to an index of the
  ring, along one axis of extent \<open>n\<close>.
\<close>

definition ghost :: "'a Field \<Rightarrow> int \<Rightarrow> int \<Rightarrow> bool" where
  "ghost f i j =
     (- 1 \<le> i \<and> i \<le> rows f \<and> - 1 \<le> j \<and> j \<le> cols f \<and> \<not> interior f i j)"

definition nearest :: "int \<Rightarrow> int \<Rightarrow> int" where
  "nearest n k = (if k < 0 then 0 else if n \<le> k then n - 1 else k)"

text \<open>
  What the refresh does to the value of the interior cell next to cell \<open>(i, j)\<close> of the
  ring: across the top or bottom wall if the cell lies in a ghost row, then across the
  left or right wall if it lies in a ghost column.
\<close>

definition across :: "BoundaryCondition \<Rightarrow> (Wall \<Rightarrow> 'a \<Rightarrow> 'a) \<Rightarrow> 'a Field \<Rightarrow> int \<Rightarrow> int \<Rightarrow> 'a \<Rightarrow> 'a" where
  "across bc mirror f i j a =
     (let a = (if i = - 1 then ghost_value bc mirror Top a
               else if i = rows f then ghost_value bc mirror Bottom a else a)
      in if j = - 1 then ghost_value bc mirror Left a
         else if j = cols f then ghost_value bc mirror Right a else a)"

subsection \<open>Divergence\<close>

text \<open>
  Modelled from the spec: \<^verbatim>\<open>divergence(dst, velocity)\<close> of \<^verbatim>\<open>operations.h\<close>, which is
  missing. Every interior cell of \<open>dst\<close> receives the central differences of the velocity
  across the cell's four neighbours; the ring of \<open>dst\<close> is left as it is.
\<close>

definition divergence_cell :: "Vector Field \<Rightarrow> int \<Rightarrow> int \<Rightarrow> real" where
  "divergence_cell v i j =
     (vx (index v i (j + 1)) - vx (index v i (j - 1))) / 2
     + (vy (index v (i + 1) j) - vy (index v (i - 1) j)) / 2"

definition divergence :: "real Field \<Rightarrow> Vector Field \<Rightarrow> real Field" where
  "divergence dst v =
     for_cells (rows dst) (cols dst) (\<lambda>i j d. set_index d i j (divergence_cell v i j)) dst"

text \<open>Two fields of the same dimensions and policy.\<close>

definition same_shape :: "'a Field \<Rightarrow> 'b Field \<Rightarrow> bool" where
  "same_shape f g = (rows f = rows g \<and> cols f = cols g \<and> policy f = policy g)"

text \<open>A velocity field and a scalar field whose cells differ from one another.\<close>

definition example_velocity :: "Vector Field" where
  "example_velocity =
     \<lparr>rows = 80, cols = 60, policy = NEGATIVE, cells = \<lambda>(i, j). Vector (of_int j) (of_int i + 1)\<rparr>"

definition example_scalar :: "real Field" where
  "example_scalar = \<lparr>rows = 80, cols = 60, policy = CLONE, cells = \<lambda>(i, j). of_int (i + 2 * j)\<rparr>"

subsection \<open>Semi-Lagrangian advection\<close>

text \<open>
  Modelled from the spec: \<^verbatim>\<open>semilagrangian_advect(dest, src, velocity, dt)\<close> of
  \<^verbatim>\<open>operations.h\<close>, which is missing. For each interior cell of \<open>dest\<close> the position
  \<open>(i, j) - velocity(i, j) \<cdot> dt\<close> is traced back (the \<open>y\<close> component along the rows, the \<open>x\<close>
  component along the columns), clamped to the sampling domain, and \<open>src\<close> is interpolated
  bilinearly there. The spec does not give the bounds of the sampling domain: it reaches
  \<open>margin\<close> cells beyond the first and the last interior cell on each axis, and \<open>margin\<close> is
  an argument. The spec requires a boundary refresh after any bulk write to the interior
  and before an operator reads ghost cells, and \<^verbatim>\<open>sim_routine\<close> calls none between the
  operators: the operator refreshes the ring of the field it has written.
\<close>

definition clamp :: "real \<Rightarrow> real \<Rightarrow> real \<Rightarrow> real" where
  "clamp lo hi x = (if x < lo then lo else if hi < x then hi else x)"

definition bilinear :: "'a::real_vector Field \<Rightarrow> real \<Rightarrow> real \<Rightarrow> 'a" where
  "bilinear src y x =
     (let i0 = \<lfloor>y\<rfloor>; j0 = \<lfloor>x\<rfloor>; fi = y - of_int i0; fj = x - of_int j0
      in ((1 - fi) * (1 - fj)) *\<^sub>R index src i0 j0
         + ((1 - fi) * fj) *\<^sub>R index src i0 (j0 + 1)
         + (fi * (1 - fj)) *\<^sub>R index src (i0 + 1) j0
         + (fi * fj) *\<^sub>R index src (i0 + 1) (j0 + 1))"

definition backtrace :: "real \<Rightarrow> int \<Rightarrow> int \<Rightarrow> Vector Field \<Rightarrow> real \<Rightarrow> int \<Rightarrow> int \<Rightarrow> real \<times> real" where
  "backtrace margin r c v dt i j =
     (clamp (- margin) (of_int (r - 1) + margin) (of_int i - vy (index v i j) * dt),
      clamp (- margin) (of_int (c - 1) + margin) (of_int j - vx (index v i j) * dt))"

definition advect_cell :: "real \<Rightarrow> int \<Rightarrow> int \<Rightarrow> 'a::real_vector Field \<Rightarrow> Vector Field \<Rightarrow> real \<Rightarrow> int \<Rightarrow> int \<Rightarrow> 'a" where
  "advect_cell margin r c src v dt i j =
     (case backtrace margin r c v dt i j of (y, x) \<Rightarrow> bilinear src y x)"

definition semilagrangian_advect ::
  "real \<Rightarrow> (Wall \<Rightarrow> 'a \<Rightarrow> 'a) \<Rightarrow> 'a::real_vector Field \<Rightarrow> 'a Field \<Rightarrow> Vector Field \<Rightarrow> real \<Rightarrow> 'a Field" where
  "semilagrangian_advect margin mirror dest src v dt =
     update_boundary mirror
       (for_cells (rows dest) (cols dest)
          (\<lambda>i j d. set_index d i j (advect_cell margin (rows dest) (cols dest) src v dt i j)) dest)"

subsection \<open>Pressure projection\<close>

text \<open>
  Modelled from the spec: \<^verbatim>\<open>gauss_seidel_pressure(pressure, divergence)\<close> of
  \<^verbatim>\<open>operations.h\<close>, which is missing. The pressure starts at zero; each sweep relaxes the
  interior cells in place, in order, with the five-point stencil of the Poisson equation
  \<open>Laplacian of pressure = divergence\<close> on a unit grid, and then refreshes the ring. The
  number of sweeps is not given by the spec and is an argument.
\<close>

definition relax_cell :: "real Field \<Rightarrow> int \<Rightarrow> int \<Rightarrow> real Field \<Rightarrow> real Field" where
  "relax_cell dvg i j p =
     set_index p i j
       ((index p (i - 1) j + index p (i + 1) j + index p i (j - 1) + index p i (j + 1)
         - index dvg i j) / 4)"

definition sweep :: "real Field \<Rightarrow> real Field \<Rightarrow> real Field" where
  "sweep dvg p = update_boundary negate_scalar (for_cells (rows p) (cols p) (relax_cell dvg) p)"

definition gauss_seidel_pressure :: "nat \<Rightarrow> real Field \<Rightarrow> real Field \<Rightarrow> real Field" where
  "gauss_seidel_pressure sweeps pressure dvg = (sweep dvg ^^ sweeps) (pressure\<lparr>cells := \<lambda>_. 0\<rparr>)"

text \<open>
  Modelled from the spec: \<^verbatim>\<open>gradient_and_subtract(velocity, pressure)\<close> of
  \<^verbatim>\<open>operations.h\<close>, which is missing. Every interior cell of the velocity loses the
  central-difference gradient of the pressure, in place; the ring of the velocity is
  refreshed afterwards, for the same reason as in the advection.
\<close>

definition subtract_cell :: "real Field \<Rightarrow> int \<Rightarrow> int \<Rightarrow> Vector Field \<Rightarrow> Vector Field" where
  "subtract_cell p i j v =
     set_index v i j
       (index v i j
        - Vector ((index p i (j + 1) - index p i (j - 1)) / 2)
                 ((index p (i + 1) j - index p (i - 1) j) / 2))"

definition gradient_and_subtract :: "Vector Field \<Rightarrow> real Field \<Rightarrow> Vector Field" where
  "gradient_and_subtract v p =
     update_boundary negate_normal (for_cells (rows v) (cols v) (subtract_cell p) v)"

text \<open>The operators as the sketch uses them, for a sampling margin and a number of sweeps.\<close>

definition stable_fluids :: "real \<Rightarrow> nat \<Rightarrow> operators" where
  "stable_fluids margin sweeps =
     \<lparr>op_advect_velocity = semilagrangian_advect margin negate_normal,
      op_advect_color = semilagrangian_advect margin negate_scalar,
      op_divergence = divergence,
      op_gauss_seidel_pressure = gauss_seidel_pressure sweeps,
      op_gradient_and_subtract = gradient_and_subtract\<rparr>"

text \<open>
  A field that is zero on its interior, and one that is zero on every interior cell and
  on the four neighbours of every interior cell, which is what the stencils read.
\<close>

definition zero_interior :: "'a::zero Field \<Rightarrow> bool" where
  "zero_interior v = (\<forall>i j. interior v i j \<longrightarrow> index v i j = 0)"

definition zero_stencil :: "'a::zero Field \<Rightarrow> bool" where
  "zero_stencil v =
     (\<forall>i j. interior v i j \<longrightarrow>
        index v i j = 0 \<and> index v (i - 1) j = 0 \<and> index v (i + 1) j = 0
        \<and> index v i (j - 1) = 0 \<and> index v i (j + 1) = 0)"

section \<open>The two tasks and their hand-off\<close>

text \<open>
  \<^verbatim>\<open>sim_routine\<close> (lines 85 to 218) and \<^verbatim>\<open>draw_routine\<close> (lines 71 to 82) run as two
  tasks of FreeRTOS over the same globals. An execution is a schedule: a list that says
  which task makes the next step. A step is one statement of the source. A task whose
  next statement waits (\<^verbatim>\<open>xSemaphoreTake\<close> with \<^verbatim>\<open>portMAX_DELAY\<close> on a mutex that is held
  or a semaphore that is empty) cannot be scheduled: its step is \<open>Blocked\<close>. Every
  schedule is allowed, so the priorities of the two tasks play no role.

  The contents of a colour buffer are abstracted to what the hand-off is about: which
  tick wrote the buffer and for which channel, or that it is being written (a call of
  \<^verbatim>\<open>semilagrangian_advect\<close> has started on it and has not returned) or has never been
  written. The number of the tick in progress is kept for this purpose only.
\<close>

datatype Channel = Red | Green | Blue

datatype buffer = Dirty | Frame nat Channel

datatype task = SimTask | DrawTask

datatype sim_pc =
    S_physics               \<comment> \<open>lines 87 to 121: the velocity field, private to the task\<close>
  | S_take_mutex            \<comment> \<open>line 125\<close>
  | S_new                   \<comment> \<open>line 130\<close>
  | S_advect Channel        \<comment> \<open>lines 132, 137, 142: the call starts to write the spare\<close>
  | S_advect_end Channel    \<comment> \<open>the call returns\<close>
  | S_temp Channel          \<comment> \<open>lines 133, 138, 143: \<^verbatim>\<open>temp = c_field\<close>\<close>
  | S_field Channel         \<comment> \<open>lines 134, 139, 144: \<^verbatim>\<open>c_field = temp_color_field\<close>\<close>
  | S_spare Channel         \<comment> \<open>lines 135, 140, 145: \<^verbatim>\<open>temp_color_field = temp\<close>\<close>
  | S_delete                \<comment> \<open>line 147\<close>
  | S_give_mutex            \<comment> \<open>line 150\<close>
  | S_give_semaphore        \<comment> \<open>line 151\<close>
  | S_diagnostic            \<comment> \<open>lines 153 to 216, then the next iteration\<close>

datatype draw_pc =
    D_take_semaphore        \<comment> \<open>line 77\<close>
  | D_take_mutex            \<comment> \<open>line 78\<close>
  | D_call                  \<comment> \<open>line 79: the three pointers are passed to \<^verbatim>\<open>draw_color_field\<close>\<close>
  | D_read Channel          \<comment> \<open>lines 54 to 56: one channel of one cell is read\<close>
  | D_next                  \<comment> \<open>the cell is drawn; on to the next cell, or return\<close>
  | D_give_mutex            \<comment> \<open>line 80\<close>

record system =
  sim_at :: sim_pc
  draw_at :: draw_pc
  color_mutex :: "task option"
  color_semaphore :: nat
  shared :: "buffer color_state"
  temp :: addr
  temp_color_field :: addr
  args :: "Channel \<Rightarrow> addr"
  cell :: nat
  seen :: "Channel \<Rightarrow> buffer option"
  drawn :: "(nat \<times> Channel \<times> buffer) list"
  tick_no :: nat
  backlog :: nat

text \<open>
  \<open>color_mutex\<close> is the task that holds the mutex, if any. \<open>color_semaphore\<close> is the count
  of the binary semaphore: giving it when it is already 1 leaves it at 1. \<open>args\<close> are the
  parameters of \<^verbatim>\<open>draw_color_field\<close>, \<open>cell\<close> counts the cells it has drawn (the loops
  of lines 45 to 53 visit 4 by 4 tiles of 20 by 15 cells, \<open>N_CELLS\<close> in all) and \<open>seen\<close> is
  what it has read for the cell at hand. \<open>drawn\<close> is the log of one call of
  \<^verbatim>\<open>draw_color_field\<close>, that is of one draw pass under the mutex: it is emptied when the
  call is made (line 79) and every read of lines 54 to 56 appends the cell, the channel and
  what the read found; nothing else changes it. \<open>backlog\<close> counts the commits completed
  since the render task last came past its wait for the semaphore.
\<close>

datatype 'a outcome = Blocked | Invalid | Fault | Next 'a

text \<open>
  \<open>Invalid\<close>: the allocator is asked to return an address that is live, which it never
  does. \<open>Fault\<close>: a pointer that is not live is dereferenced or deleted.
\<close>

fun field_of :: "Channel \<Rightarrow> 'b color_state \<Rightarrow> addr" where
  "field_of Red c = red_field c"
| "field_of Green c = green_field c"
| "field_of Blue c = blue_field c"

fun set_field_of :: "Channel \<Rightarrow> addr \<Rightarrow> 'b color_state \<Rightarrow> 'b color_state" where
  "set_field_of Red a c = c\<lparr>red_field := a\<rparr>"
| "set_field_of Green a c = c\<lparr>green_field := a\<rparr>"
| "set_field_of Blue a c = c\<lparr>blue_field := a\<rparr>"

definition write_buffer :: "addr \<Rightarrow> buffer \<Rightarrow> buffer color_state \<Rightarrow> buffer color_state" where
  "write_buffer a b c = c\<lparr>heap := (heap c)(a \<mapsto> b)\<rparr>"

text \<open>What advecting a source under the velocity of tick \<open>n\<close> leaves in the destination.\<close>

fun advected :: "nat \<Rightarrow> buffer \<Rightarrow> buffer" where
  "advected n (Frame t c) = Frame n c"
| "advected n Dirty = Dirty"

fun after_swap :: "Channel \<Rightarrow> sim_pc" where
  "after_swap Red = S_advect Green"
| "after_swap Green = S_advect Blue"
| "after_swap Blue = S_delete"

fun after_read :: "Channel \<Rightarrow> draw_pc" where
  "after_read Red = D_read Green"
| "after_read Green = D_read Blue"
| "after_read Blue = D_next"

definition N_CELLS :: nat where
  "N_CELLS = 4800"

definition sim_step :: "addr \<Rightarrow> system \<Rightarrow> system outcome" where
  "sim_step a s =
     (case sim_at s of
        S_physics \<Rightarrow> Next (s\<lparr>sim_at := S_take_mutex\<rparr>)
      | S_take_mutex \<Rightarrow>
          (if color_mutex s = None
           then Next (s\<lparr>sim_at := S_new, color_mutex := Some SimTask\<rparr>)
           else Blocked)
      | S_new \<Rightarrow>
          (if heap (shared s) a \<noteq> None then Invalid
           else Next (s\<lparr>sim_at := S_advect Red, temp_color_field := a,
                        shared := write_buffer a Dirty (shared s)\<rparr>))
      | S_advect c \<Rightarrow>
          (if heap (shared s) (temp_color_field s) = None
              \<or> heap (shared s) (field_of c (shared s)) = None
              \<or> temp_color_field s = field_of c (shared s)
           then Fault
           else Next (s\<lparr>sim_at := S_advect_end c,
                        shared := write_buffer (temp_color_field s) Dirty (shared s)\<rparr>))
      | S_advect_end c \<Rightarrow>
          (case heap (shared s) (field_of c (shared s)) of
             None \<Rightarrow> Fault
           | Some src \<Rightarrow>
               Next (s\<lparr>sim_at := S_temp c,
                       shared := write_buffer (temp_color_field s) (advected (tick_no s) src)
                                   (shared s)\<rparr>))
      | S_temp c \<Rightarrow> Next (s\<lparr>sim_at := S_field c, temp := field_of c (shared s)\<rparr>)
      | S_field c \<Rightarrow>
          Next (s\<lparr>sim_at := S_spare c,
                  shared := set_field_of c (temp_color_field s) (shared s)\<rparr>)
      | S_spare c \<Rightarrow> Next (s\<lparr>sim_at := after_swap c, temp_color_field := temp s\<rparr>)
      | S_delete \<Rightarrow>
          (if heap (shared s) (temp_color_field s) = None then Fault
           else Next (s\<lparr>sim_at := S_give_mutex,
                        shared := (shared s)\<lparr>heap := (heap (shared s))(temp_color_field s := None)\<rparr>\<rparr>))
      | S_give_mutex \<Rightarrow> Next (s\<lparr>sim_at := S_give_semaphore, color_mutex := None\<rparr>)
      | S_give_semaphore \<Rightarrow>
          Next (s\<lparr>sim_at := S_diagnostic, color_semaphore := 1, backlog := backlog s + 1\<rparr>)
      | S_diagnostic \<Rightarrow> Next (s\<lparr>sim_at := S_physics, tick_no := tick_no s + 1\<rparr>))"

definition draw_step :: "system \<Rightarrow> system outcome" where
  "draw_step s =
     (case draw_at s of
        D_take_semaphore \<Rightarrow>
          (if color_semaphore s = 0 then Blocked
           else Next (s\<lparr>draw_at := D_take_mutex, color_semaphore := 0, backlog := 0\<rparr>))
      | D_take_mutex \<Rightarrow>
          (if color_mutex s = None
           then Next (s\<lparr>draw_at := D_call, color_mutex := Some DrawTask\<rparr>)
           else Blocked)
      | D_call \<Rightarrow>
          Next (s\<lparr>draw_at := D_read Red, args := (\<lambda>c. field_of c (shared s)), cell := 0,
                  drawn := []\<rparr>)
      | D_read c \<Rightarrow>
          (case heap (shared s) (args s c) of
             None \<Rightarrow> Fault
           | Some b \<Rightarrow>
               Next (s\<lparr>draw_at := after_read c, seen := (seen s)(c \<mapsto> b),
                       drawn := drawn s @ [(cell s, c, b)]\<rparr>))
      | D_next \<Rightarrow>
          (if cell s + 1 < N_CELLS
           then Next (s\<lparr>draw_at := D_read Red, cell := cell s + 1, seen := (\<lambda>_. None)\<rparr>)
           else Next (s\<lparr>draw_at := D_give_mutex\<rparr>))
      | D_give_mutex \<Rightarrow> Next (s\<lparr>draw_at := D_take_semaphore, color_mutex := None\<rparr>))"

text \<open>
  An event of a schedule: the simulation task steps (with the address the allocator
  would return, used by line 130 only), or the render task steps.
\<close>

datatype event = Sim addr | Draw

fun step :: "event \<Rightarrow> system \<Rightarrow> system outcome" where
  "step (Sim a) s = sim_step a s"
| "step Draw s = draw_step s"

fun exec :: "event list \<Rightarrow> system \<Rightarrow> system outcome" where
  "exec [] s = Next s"
| "exec (e # es) s =
     (case step e s of
        Next s' \<Rightarrow> exec es s'
      | Blocked \<Rightarrow> Blocked
      | Invalid \<Rightarrow> Invalid
      | Fault \<Rightarrow> Fault)"

text \<open>
  The state in which \<^verbatim>\<open>setup\<close> launches the tasks (lines 227 to 264): three buffers
  that \<^verbatim>\<open>setup\<close> has filled, at three different addresses, the mutex free, the binary
  semaphore empty, and the first tick about to begin.
\<close>

definition launch :: "addr \<Rightarrow> addr \<Rightarrow> addr \<Rightarrow> system" where
  "launch r g b =
     \<lparr>sim_at = S_physics, draw_at = D_take_semaphore, color_mutex = None, color_semaphore = 0,
      shared = \<lparr>red_field = r, green_field = g, blue_field = b,
                heap = [r \<mapsto> Frame 0 Red, g \<mapsto> Frame 0 Green, b \<mapsto> Frame 0 Blue]\<rparr>,
      temp = r, temp_color_field = r, args = (\<lambda>_. r), cell = 0, seen = (\<lambda>_. None),
      drawn = [], tick_no = 1, backlog = 0\<rparr>"

text \<open>
  What holds in every state the two tasks can reach. The channels are swapped in the order
  red, green, blue; \<open>progress\<close> is the number of channels that the tick in progress has
  swapped when the simulation task is at a given statement, and \<open>expected\<close> is what the
  buffer behind a channel's pointer then holds.
\<close>

fun rank :: "Channel \<Rightarrow> nat" where
  "rank Red = 0"
| "rank Green = 1"
| "rank Blue = 2"

fun progress :: "sim_pc \<Rightarrow> nat" where
  "progress S_physics = 0"
| "progress S_take_mutex = 0"
| "progress S_new = 0"
| "progress (S_advect c) = rank c"
| "progress (S_advect_end c) = rank c"
| "progress (S_temp c) = rank c"
| "progress (S_field c) = rank c"
| "progress (S_spare c) = rank c + 1"
| "progress S_delete = 3"
| "progress S_give_mutex = 3"
| "progress S_give_semaphore = 3"
| "progress S_diagnostic = 3"

fun critical :: "sim_pc \<Rightarrow> bool" where
  "critical S_physics = False"
| "critical S_take_mutex = False"
| "critical S_give_semaphore = False"
| "critical S_diagnostic = False"
| "critical _ = True"

fun in_pass :: "draw_pc \<Rightarrow> bool" where
  "in_pass D_take_semaphore = False"
| "in_pass D_take_mutex = False"
| "in_pass _ = True"

fun has_read :: "draw_pc \<Rightarrow> Channel \<Rightarrow> bool" where
  "has_read (D_read c) c' = (rank c' < rank c)"
| "has_read D_next c' = True"
| "has_read _ c' = False"

fun reading :: "draw_pc \<Rightarrow> bool" where
  "reading (D_read c) = True"
| "reading D_next = True"
| "reading _ = False"

text \<open>
  \<open>covered pc n k c\<close>: the call of \<^verbatim>\<open>draw_color_field\<close> in progress has read channel \<open>c\<close> of
  cell \<open>k\<close> when the render task is at \<open>pc\<close> with its cell counter at \<open>n\<close>. \<open>one_frame\<close>: all
  the entries of a log are complete buffers of one tick of the simulation, each of the
  channel it was read for.
\<close>

fun covered :: "draw_pc \<Rightarrow> nat \<Rightarrow> nat \<Rightarrow> Channel \<Rightarrow> bool" where
  "covered (D_read c') n k c = (k < n \<or> (k = n \<and> rank c < rank c'))"
| "covered D_next n k c = (k \<le> n)"
| "covered D_give_mutex n k c = (k \<le> n)"
| "covered _ n k c = False"

definition one_frame :: "(nat \<times> Channel \<times> buffer) list \<Rightarrow> bool" where
  "one_frame l = (\<exists>t\<ge>1. \<forall>(k, c, x)\<in>set l. x = Frame t c)"

definition expected :: "system \<Rightarrow> Channel \<Rightarrow> buffer" where
  "expected s c =
     Frame (if rank c < progress (sim_at s) then tick_no s else tick_no s - 1) c"

definition fields :: "'b color_state \<Rightarrow> addr set" where
  "fields c = {red_field c, green_field c, blue_field c}"

fun spare_ok :: "sim_pc \<Rightarrow> system \<Rightarrow> bool" where
  "spare_ok (S_advect c) s =
     (temp_color_field s \<notin> fields (shared s)
      \<and> dom (heap (shared s)) = insert (temp_color_field s) (fields (shared s)))"
| "spare_ok (S_advect_end c) s =
     (temp_color_field s \<notin> fields (shared s)
      \<and> dom (heap (shared s)) = insert (temp_color_field s) (fields (shared s)))"
| "spare_ok (S_temp c) s =
     (temp_color_field s \<notin> fields (shared s)
      \<and> heap (shared s) (temp_color_field s) = Some (Frame (tick_no s) c)
      \<and> dom (heap (shared s)) = insert (temp_color_field s) (fields (shared s)))"
| "spare_ok (S_field c) s =
     (temp_color_field s \<notin> fields (shared s)
      \<and> heap (shared s) (temp_color_field s) = Some (Frame (tick_no s) c)
      \<and> temp s = field_of c (shared s)
      \<and> dom (heap (shared s)) = insert (temp_color_field s) (fields (shared s)))"
| "spare_ok (S_spare c) s =
     (temp s \<notin> fields (shared s)
      \<and> dom (heap (shared s)) = insert (temp s) (fields (shared s)))"
| "spare_ok S_delete s =
     (temp_color_field s \<notin> fields (shared s)
      \<and> dom (heap (shared s)) = insert (temp_color_field s) (fields (shared s)))"
| "spare_ok _ s = (dom (heap (shared s)) = fields (shared s))"

text \<open>
  The log of the draw pass in progress holds what the channels' buffers hold, for every
  channel of every cell the pass has been through; once the pass is over it stays as it
  is, a log of one frame, until the next call empties it.
\<close>

definition pass_log :: "system \<Rightarrow> bool" where
  "pass_log s =
     (if reading (draw_at s) \<or> draw_at s = D_give_mutex
      then (\<forall>(k, c, x)\<in>set (drawn s). x = expected s c)
         \<and> (\<forall>k c. covered (draw_at s) (cell s) k c \<longrightarrow> (k, c, expected s c) \<in> set (drawn s))
         \<and> cell s < N_CELLS
         \<and> (draw_at s = D_give_mutex \<longrightarrow> cell s + 1 = N_CELLS)
      else one_frame (drawn s))"

definition invariant :: "system \<Rightarrow> bool" where
  "invariant s =
     (color_mutex s =
        (if critical (sim_at s) then Some SimTask
         else if in_pass (draw_at s) then Some DrawTask else None)
      \<and> \<not> (critical (sim_at s) \<and> in_pass (draw_at s))
      \<and> distinct [red_field (shared s), green_field (shared s), blue_field (shared s)]
      \<and> (\<forall>c. heap (shared s) (field_of c (shared s)) = Some (expected s c))
      \<and> spare_ok (sim_at s) s
      \<and> (reading (draw_at s) \<longrightarrow> (\<forall>c. args s c = field_of c (shared s)))
      \<and> (\<forall>c. has_read (draw_at s) c \<longrightarrow> seen s c = Some (expected s c))
      \<and> color_semaphore s \<le> 1
      \<and> 1 \<le> tick_no s
      \<and> (color_semaphore s = 1 \<or> draw_at s \<noteq> D_take_semaphore
           \<longrightarrow> 2 \<le> tick_no s \<or> sim_at s = S_diagnostic)
      \<and> pass_log s)"

section \<open>Properties of the forcing step\<close>

lemma forced_cells_card: "card forced_cells = 4"
  by (simp add: forced_cells_def N_ROWS_def N_COLS_def)

lemma apply_force_LOW_cells:
  "cells (apply_force LOW v) c =
     (if c \<in> forced_cells then cells v c + dv else cells v c)"
  by (cases c)
     (simp add: apply_force_def add_at_def set_index_def index_def forced_cells_def
        center_i_def center_j_def N_ROWS_def N_COLS_def)

lemma apply_force_shape:
  "rows (apply_force pin v) = rows v \<and> cols (apply_force pin v) = cols v
   \<and> policy (apply_force pin v) = policy v"
  by (simp add: apply_force_def add_at_def set_index_def)

text \<open>
  C7. In a tick the forcing step changes the velocity field exactly when the input is
  asserted (pin 0 reads \<open>LOW\<close>): then the fixed delta \<open>dv\<close> is added once at each of the
  four cells \<open>(R/2, C/2)\<close>, \<open>(R/2+1, C/2)\<close>, \<open>(R/2, C/2+1)\<close>, \<open>(R/2+1, C/2+1)\<close> and every
  other cell keeps its value; the delta's length times the time step is at most one
  cell; with the input not asserted the field is returned as it was.
\<close>

theorem apply_force_spec:
  "cells (apply_force pin v) c =
     (if pin = LOW \<and> c \<in> forced_cells then cells v c + dv else cells v c)
   \<and> (pin \<noteq> LOW \<longrightarrow> apply_force pin v = v)
   \<and> card forced_cells = 4
   \<and> dv \<noteq> Vector 0 0
   \<and> vnorm dv * DT \<le> 1"
proof -
  have "cells (apply_force pin v) c =
     (if pin = LOW \<and> c \<in> forced_cells then cells v c + dv else cells v c)"
  proof (cases "pin = LOW")
    case True
    then show ?thesis by (simp add: apply_force_LOW_cells)
  next
    case False
    then show ?thesis by (simp add: apply_force_def)
  qed
  moreover have "pin \<noteq> LOW \<longrightarrow> apply_force pin v = v"
    by (simp add: apply_force_def)
  moreover have "vnorm dv * DT \<le> 1"
    by (simp add: vnorm_def dv_def DT_def)
  moreover have "dv \<noteq> Vector 0 0"
    by (simp add: dv_def)
  ultimately show ?thesis
    using forced_cells_card by simp
qed

theorem apply_force_spec_witness:
  "cells (apply_force LOW \<lparr>rows = 80, cols = 60, policy = NEGATIVE, cells = \<lambda>c. Vector 0 0\<rparr>)
     (41, 30) = Vector 0 10
   \<and> cells (apply_force LOW \<lparr>rows = 80, cols = 60, policy = NEGATIVE, cells = \<lambda>c. Vector 0 0\<rparr>)
     (42, 30) = Vector 0 0
   \<and> apply_force HIGH \<lparr>rows = 80, cols = 60, policy = NEGATIVE, cells = \<lambda>c. Vector 0 0\<rparr>
     = \<lparr>rows = 80, cols = 60, policy = NEGATIVE, cells = \<lambda>c. Vector 0 0\<rparr>"
  using apply_force_spec [of LOW "\<lparr>rows = 80, cols = 60, policy = NEGATIVE, cells = \<lambda>c. Vector 0 0\<rparr>" "(41, 30)"]
    apply_force_spec [of LOW "\<lparr>rows = 80, cols = 60, policy = NEGATIVE, cells = \<lambda>c. Vector 0 0\<rparr>" "(42, 30)"]
    apply_force_spec [of HIGH "\<lparr>rows = 80, cols = 60, policy = NEGATIVE, cells = \<lambda>c. Vector 0 0\<rparr>"]
  by (simp add: forced_cells_def N_ROWS_def N_COLS_def plus_Vector_def dv_def)

section \<open>Properties of the commit step\<close>

lemma commit_result:
  assumes R: "heap s (red_field s) = Some R"
    and G: "heap s (green_field s) = Some G"
    and B: "heap s (blue_field s) = Some B"
    and d: "distinct [red_field s, green_field s, blue_field s]"
    and fresh: "a \<notin> dom (heap s)"
  shows "commit adv a f vel s =
     Some \<lparr>red_field = a, green_field = red_field s, blue_field = green_field s,
       heap = (heap s)(a \<mapsto> adv f R vel DT, red_field s \<mapsto> adv R G vel DT,
                green_field s \<mapsto> adv G B vel DT, blue_field s := None)\<rparr>"
proof -
  have na: "a \<noteq> red_field s" "a \<noteq> green_field s" "a \<noteq> blue_field s"
    using R G B fresh by auto
  have live: "red_field s \<in> dom (heap s)" "green_field s \<in> dom (heap s)"
    "blue_field s \<in> dom (heap s)"
    using R G B by auto
  show ?thesis
    using R G B d fresh na live
    by (simp add: commit_def new_at_def advect_at_def delete_at_def Let_def)
qed

lemma commit_naive_result:
  assumes R: "heap s (red_field s) = Some R"
    and G: "heap s (green_field s) = Some G"
    and B: "heap s (blue_field s) = Some B"
    and d: "distinct [red_field s, green_field s, blue_field s]"
    and fresh: "a1 \<notin> dom (heap s)" "a2 \<notin> dom (heap s)" "a3 \<notin> dom (heap s)"
    and da: "distinct [a1, a2, a3]"
  shows "commit_naive adv (a1, a2, a3) (f1, f2, f3) vel s =
     Some \<lparr>red_field = a1, green_field = a2, blue_field = a3,
       heap = (heap s)(a1 \<mapsto> adv f1 R vel DT, a2 \<mapsto> adv f2 G vel DT,
                a3 \<mapsto> adv f3 B vel DT, red_field s := None, green_field s := None,
                blue_field s := None)\<rparr>"
proof -
  have na: "a1 \<noteq> red_field s" "a1 \<noteq> green_field s" "a1 \<noteq> blue_field s"
     "a2 \<noteq> red_field s" "a2 \<noteq> green_field s" "a2 \<noteq> blue_field s"
     "a3 \<noteq> red_field s" "a3 \<noteq> green_field s" "a3 \<noteq> blue_field s"
    using R G B fresh by auto
  have live: "red_field s \<in> dom (heap s)" "green_field s \<in> dom (heap s)"
    "blue_field s \<in> dom (heap s)"
    using R G B by auto
  show ?thesis
    using R G B d fresh na da live
    by (auto simp add: commit_naive_def new_at_def advect_at_def delete_at_def)
qed

section \<open>Properties of loops over the interior\<close>

lemma fold_inv:
  assumes "Q s" and "\<And>y s. y \<in> set xs \<Longrightarrow> Q s \<Longrightarrow> Q (f y s)"
  shows "Q (fold f xs s)"
  using assms by (induction xs arbitrary: s) auto

lemma fold_post:
  assumes x: "x \<in> set xs"
    and Q: "Q s"
    and inv: "\<And>y s. y \<in> set xs \<Longrightarrow> Q s \<Longrightarrow> Q (f y s)"
    and est: "\<And>s. Q s \<Longrightarrow> P (f x s)"
    and pres: "\<And>y s. y \<in> set xs \<Longrightarrow> y \<noteq> x \<Longrightarrow> Q s \<Longrightarrow> P s \<Longrightarrow> P (f y s)"
  shows "P (fold f xs s)"
proof -
  have step: "\<And>y s. y \<in> set xs \<Longrightarrow> Q s \<and> P s \<Longrightarrow> Q (f y s) \<and> P (f y s)"
    using inv est pres by metis
  show ?thesis
    using x Q inv est step
  proof (induction xs arbitrary: s)
    case Nil
    then show ?case by simp
  next
    case (Cons a xs)
    show ?case
    proof (cases "a = x")
      case True
      have "Q (f a s) \<and> P (f a s)"
        using Cons.prems True by simp
      then have "Q (fold f xs (f a s)) \<and> P (fold f xs (f a s))"
        by (rule fold_inv [where Q = "\<lambda>s. Q s \<and> P s"]) (use Cons.prems in simp)
      then show ?thesis by simp
    next
      case False
      then have "x \<in> set xs" using Cons.prems by simp
      moreover have "Q (f a s)" using Cons.prems by simp
      ultimately have "P (fold f xs (f a s))"
        using Cons.prems by (intro Cons.IH) simp_all
      then show ?thesis by simp
    qed
  qed
qed

lemma for_cells_inv:
  assumes "Q s"
    and "\<And>i j s. 0 \<le> i \<Longrightarrow> i < R \<Longrightarrow> 0 \<le> j \<Longrightarrow> j < C \<Longrightarrow> Q s \<Longrightarrow> Q (body i j s)"
  shows "Q (for_cells R C body s)"
  unfolding for_cells_def
proof (rule fold_inv [where Q = Q])
  show "Q s" by (rule assms(1))
  show "Q (fold (body y) [0..C - 1] s)" if "y \<in> set [0..R - 1]" "Q s" for y s
    by (rule fold_inv [where Q = Q]) (use that assms(2) in auto)
qed

lemma for_cells_post:
  assumes i: "0 \<le> i" "i < R" and j: "0 \<le> j" "j < C"
    and Q: "Q s"
    and inv: "\<And>i j s. 0 \<le> i \<Longrightarrow> i < R \<Longrightarrow> 0 \<le> j \<Longrightarrow> j < C \<Longrightarrow> Q s \<Longrightarrow> Q (body i j s)"
    and est: "\<And>s. Q s \<Longrightarrow> P (body i j s)"
    and pres: "\<And>i' j' s. 0 \<le> i' \<Longrightarrow> i' < R \<Longrightarrow> 0 \<le> j' \<Longrightarrow> j' < C \<Longrightarrow> (i', j') \<noteq> (i, j)
       \<Longrightarrow> Q s \<Longrightarrow> P s \<Longrightarrow> P (body i' j' s)"
  shows "P (for_cells R C body s)"
  unfolding for_cells_def
proof (rule fold_post [where x = i and Q = Q])
  show "i \<in> set [0..R - 1]" using i by simp
  show "Q s" by (rule Q)
  show "Q (fold (body y) [0..C - 1] s)" if "y \<in> set [0..R - 1]" "Q s" for y s
    by (rule fold_inv [where Q = Q]) (use that inv in auto)
  show "P (fold (body i) [0..C - 1] s)" if "Q s" for s
  proof (rule fold_post [where x = j and Q = Q])
    show "j \<in> set [0..C - 1]" using j by simp
    show "Q s" by (rule that)
    show "Q (body i y s)" if "y \<in> set [0..C - 1]" "Q s" for y s
      using that inv i by auto
    show "P (body i j s)" if "Q s" for s by (rule est [OF that])
    show "P (body i y s)" if "y \<in> set [0..C - 1]" "y \<noteq> j" "Q s" "P s" for y s
      using that pres [of i y s] i by auto
  qed
  show "P (fold (body y) [0..C - 1] s)" if "y \<in> set [0..R - 1]" "y \<noteq> i" "Q s" "P s" for y s
  proof -
    have "Q (fold (body y) [0..C - 1] s) \<and> P (fold (body y) [0..C - 1] s)"
      by (rule fold_inv [where Q = "\<lambda>s. Q s \<and> P s"])
         (use that inv pres [of y] in auto)
    then show ?thesis by simp
  qed
qed


section \<open>Properties of the initialisation\<close>

lemma atan2_range: "- pi < atan2 y x \<and> atan2 y x \<le> pi"
proof -
  have b: "- (pi / 2) < arctan (y / x)" "arctan (y / x) < pi / 2"
    by (rule arctan_lbound, rule arctan_ubound)
  have neg: "arctan (y / x) \<le> 0" if "x < 0" "0 \<le> y"
  proof -
    have "y / x \<le> 0" using that by (simp add: divide_nonneg_neg)
    then show ?thesis by (simp add: arctan_le_zero_iff)
  qed
  have pos: "0 < arctan (y / x)" if "x < 0" "y < 0"
  proof -
    have "0 < y / x" using that by (simp add: divide_neg_neg)
    then show ?thesis by (simp add: zero_less_arctan_iff)
  qed
  show ?thesis
    using b neg pos pi_gt_zero by (auto simp add: atan2_def)
qed

lemma init_cell_here:
  "index (red (init_cell i j s)) i j = (if - pi \<le> sector i j \<and> sector i j < - pi / 3 then 1 else 0)
   \<and> index (green (init_cell i j s)) i j = (if - pi / 3 \<le> sector i j \<and> sector i j < pi / 3 then 1 else 0)
   \<and> index (blue (init_cell i j s)) i j =
       (if (- pi \<le> sector i j \<and> sector i j < - pi / 3) \<or> (- pi / 3 \<le> sector i j \<and> sector i j < pi / 3)
        then 0 else 1)
   \<and> index (velocity (init_cell i j s)) i j = Vector 0 0"
  using pi_gt_zero
  by (simp add: init_cell_def Let_def set_index_def index_def sector_def center_i_def
      center_j_def PI_def)

lemma init_cell_other:
  "(i', j') \<noteq> (i, j) \<Longrightarrow>
   index (red (init_cell i' j' s)) i j = index (red s) i j
   \<and> index (green (init_cell i' j' s)) i j = index (green s) i j
   \<and> index (blue (init_cell i' j' s)) i j = index (blue s) i j
   \<and> index (velocity (init_cell i' j' s)) i j = index (velocity s) i j"
  by (auto simp add: init_cell_def Let_def set_index_def index_def)

text \<open>
  C10. After the initialisation loop every interior cell \<open>(i, j)\<close> holds 1 in exactly one
  of the three colour fields and 0 in the other two. The channel is chosen by the angle
  \<open>atan2 (i - R/2) (j - C/2)\<close>, which lies in \<open>(-\<pi>, \<pi>]\<close>: red for an angle in
  \<open>[-\<pi>, -\<pi>/3)\<close>, green for \<open>[-\<pi>/3, \<pi>/3)\<close>, blue otherwise.
\<close>

theorem init_fields_sectors:
  assumes "0 \<le> i" "i < N_ROWS" "0 \<le> j" "j < N_COLS"
  shows "index (red (init_fields s)) i j = (if - pi \<le> sector i j \<and> sector i j < - pi / 3 then 1 else 0)
   \<and> index (green (init_fields s)) i j = (if - pi / 3 \<le> sector i j \<and> sector i j < pi / 3 then 1 else 0)
   \<and> index (blue (init_fields s)) i j =
       (if (- pi \<le> sector i j \<and> sector i j < - pi / 3) \<or> (- pi / 3 \<le> sector i j \<and> sector i j < pi / 3)
        then 0 else 1)
   \<and> (index (red (init_fields s)) i j, index (green (init_fields s)) i j,
        index (blue (init_fields s)) i j) \<in> {(1, 0, 0), (0, 1, 0), (0, 0, 1)}
   \<and> - pi < sector i j \<and> sector i j \<le> pi"
proof -
  let ?P = "\<lambda>s. index (red s) i j = (if - pi \<le> sector i j \<and> sector i j < - pi / 3 then 1 else 0)
   \<and> index (green s) i j = (if - pi / 3 \<le> sector i j \<and> sector i j < pi / 3 then 1 else 0)
   \<and> index (blue s) i j =
       (if (- pi \<le> sector i j \<and> sector i j < - pi / 3) \<or> (- pi / 3 \<le> sector i j \<and> sector i j < pi / 3)
        then 0 else 1)"
  have "?P (for_cells N_ROWS N_COLS init_cell s)"
  proof (rule for_cells_post [where Q = "\<lambda>_. True" and i = i and j = j])
    show "?P (init_cell i j s)" for s
      using init_cell_here [of i j s] by simp
    show "?P (init_cell i' j' s)" if "(i', j') \<noteq> (i, j)" "?P s" for i' j' s
      using init_cell_other [OF that(1), of s] that(2) by simp
  qed (use assms in simp_all)
  then have P: "?P (init_fields s)"
    by (simp add: init_fields_def)
  then show ?thesis
    using pi_gt_zero atan2_range [of "of_int (i - N_ROWS div 2)" "of_int (j - N_COLS div 2)"]
    by (auto simp add: sector_def)
qed


lemma sector_centre: "sector 40 30 = 0"
  by (simp add: sector_def atan2_def N_ROWS_def N_COLS_def)

lemma sector_corner: "sector 0 0 < - pi / 3"
proof -
  have "sector 0 0 = arctan (4 / 3) - pi"
    by (simp add: sector_def atan2_def N_ROWS_def N_COLS_def)
  then show ?thesis
    using arctan_ubound [of "4 / 3"] pi_gt_zero by linarith
qed

theorem init_fields_sectors_witness:
  "index (red (init_fields example_grids)) 40 30 = 0
   \<and> index (green (init_fields example_grids)) 40 30 = 1
   \<and> index (blue (init_fields example_grids)) 40 30 = 0
   \<and> index (red (init_fields example_grids)) 0 0 = 1
   \<and> index (green (init_fields example_grids)) 0 0 = 0
   \<and> index (blue (init_fields example_grids)) 0 0 = 0"
  using init_fields_sectors [of 40 30 example_grids] init_fields_sectors [of 0 0 example_grids]
    sector_centre sector_corner pi_gt_zero
  by (simp add: N_ROWS_def N_COLS_def)

section \<open>Properties of the diagnostic\<close>

lemma interior_cells_finite: "finite interior_cells"
  by (simp add: interior_cells_def)

lemma interior_cells_nonempty: "(0, 0) \<in> interior_cells"
  by (simp add: interior_cells_def N_ROWS_def N_COLS_def)

lemma max_abs_divergence_upper:
  assumes "0 \<le> i" "i < N_ROWS" "0 \<le> j" "j < N_COLS"
  shows "\<bar>index d i j\<bar> \<le> max_abs_divergence d"
  unfolding max_abs_divergence_def
  by (rule for_cells_post [where Q = "\<lambda>_. True" and i = i and j = j])
     (use assms in \<open>auto simp add: scan_cell_def\<close>)

lemma max_abs_divergence_attained:
  "max_abs_divergence d = 0 \<or> (\<exists>(i, j) \<in> interior_cells. max_abs_divergence d = \<bar>index d i j\<bar>)"
  unfolding max_abs_divergence_def
proof (rule for_cells_inv)
  show "(0::real) = 0 \<or> (\<exists>(i, j) \<in> interior_cells. (0::real) = \<bar>index d i j\<bar>)"
    by simp
  show "scan_cell d i j s = 0 \<or> (\<exists>(i', j') \<in> interior_cells. scan_cell d i j s = \<bar>index d i' j'\<bar>)"
    if "0 \<le> i" "i < N_ROWS" "0 \<le> j" "j < N_COLS"
      and "s = 0 \<or> (\<exists>(i, j) \<in> interior_cells. s = \<bar>index d i j\<bar>)" for i j s
  proof (cases "\<bar>index d i j\<bar> > s")
    case True
    have "(i, j) \<in> interior_cells" using that by (simp add: interior_cells_def)
    then show ?thesis using True by (force simp add: scan_cell_def)
  next
    case False
    then show ?thesis using that(5) by (simp add: scan_cell_def)
  qed
qed

lemma max_abs_divergence_eq: "max_abs_divergence d = abs_max d"
proof -
  let ?S = "(\<lambda>(i, j). \<bar>index d i j\<bar>) ` interior_cells"
  have fin: "finite ?S" using interior_cells_finite by simp
  have ub: "y \<le> max_abs_divergence d" if "y \<in> ?S" for y
    using that max_abs_divergence_upper [of _ _ d] by (auto simp add: interior_cells_def)
  have "max_abs_divergence d \<in> ?S"
  proof (cases "max_abs_divergence d = 0")
    case True
    have "\<bar>index d 0 0\<bar> \<le> 0"
      using ub [of "\<bar>index d 0 0\<bar>"] interior_cells_nonempty True by force
    then have "\<bar>index d 0 0\<bar> = max_abs_divergence d" using True by simp
    then show ?thesis using interior_cells_nonempty by force
  next
    case False
    then show ?thesis using max_abs_divergence_attained [of d] by force
  qed
  then have "Max ?S = max_abs_divergence d"
    using fin ub by (intro Max_eqI) auto
  then show ?thesis by (simp add: abs_max_def)
qed










section \<open>Properties of loops that write a field\<close>

lemma for_span_inv:
  assumes "Q s" and "\<And>k s. lo \<le> k \<Longrightarrow> k \<le> hi \<Longrightarrow> Q s \<Longrightarrow> Q (body k s)"
  shows "Q (for_span lo hi body s)"
  unfolding for_span_def
  by (rule fold_inv [where Q = Q]) (use assms in auto)

lemma for_span_post:
  assumes k: "lo \<le> k" "k \<le> hi"
    and Q: "Q s"
    and inv: "\<And>k s. lo \<le> k \<Longrightarrow> k \<le> hi \<Longrightarrow> Q s \<Longrightarrow> Q (body k s)"
    and est: "\<And>s. Q s \<Longrightarrow> P (body k s)"
    and pres: "\<And>k' s. lo \<le> k' \<Longrightarrow> k' \<le> hi \<Longrightarrow> k' \<noteq> k \<Longrightarrow> Q s \<Longrightarrow> P s \<Longrightarrow> P (body k' s)"
  shows "P (for_span lo hi body s)"
  unfolding for_span_def
  by (rule fold_post [where x = k and Q = Q]) (use assms in auto)

text \<open>A loop that writes cell (i, j) of a field with a value that does not depend on the field.\<close>

lemma for_cells_write:
  "cells (for_cells R C (\<lambda>i j d. set_index d i j (g i j)) d) (i, j) =
     (if 0 \<le> i \<and> i < R \<and> 0 \<le> j \<and> j < C then g i j else cells d (i, j))"
proof (cases "0 \<le> i \<and> i < R \<and> 0 \<le> j \<and> j < C")
  case True
  have "cells (for_cells R C (\<lambda>i j d. set_index d i j (g i j)) d) (i, j) = g i j"
    by (rule for_cells_post [where Q = "\<lambda>_. True" and i = i and j = j])
       (use True in \<open>auto simp add: set_index_def\<close>)
  then show ?thesis using True by simp
next
  case False
  have "cells (for_cells R C (\<lambda>i j d. set_index d i j (g i j)) d) (i, j) = cells d (i, j)"
    by (rule for_cells_inv) (use False in \<open>auto simp add: set_index_def\<close>)
  then show ?thesis using False by auto
qed

lemma for_cells_write_shape:
  "rows (for_cells R C (\<lambda>i j d. set_index d i j (g i j)) d) = rows d
   \<and> cols (for_cells R C (\<lambda>i j d. set_index d i j (g i j)) d) = cols d
   \<and> policy (for_cells R C (\<lambda>i j d. set_index d i j (g i j)) d) = policy d"
  by (rule for_cells_inv) (auto simp add: set_index_def)

section \<open>Properties of the boundary refresh\<close>

lemma boundary_column_shape:
  "rows (boundary_column m j f) = rows f \<and> cols (boundary_column m j f) = cols f
   \<and> policy (boundary_column m j f) = policy f"
  by (simp add: boundary_column_def set_index_def Let_def)

lemma boundary_row_shape:
  "rows (boundary_row m i f) = rows f \<and> cols (boundary_row m i f) = cols f
   \<and> policy (boundary_row m i f) = policy f"
  by (simp add: boundary_row_def set_index_def Let_def)

lemma boundary_column_cells:
  "0 < rows f \<Longrightarrow> cells (boundary_column m j f) (i, j') =
     (if j' = j \<and> i = - 1 then ghost_value (policy f) m Top (cells f (0, j))
      else if j' = j \<and> i = rows f then ghost_value (policy f) m Bottom (cells f (rows f - 1, j))
      else cells f (i, j'))"
  by (auto simp add: boundary_column_def set_index_def index_def Let_def)

lemma boundary_row_cells:
  "0 < cols f \<Longrightarrow> cells (boundary_row m i f) (i', j) =
     (if i' = i \<and> j = - 1 then ghost_value (policy f) m Left (cells f (i, 0))
      else if i' = i \<and> j = cols f then ghost_value (policy f) m Right (cells f (i, cols f - 1))
      else cells f (i', j))"
  by (auto simp add: boundary_row_def set_index_def index_def Let_def)

lemma column_pass_cells:
  assumes r: "0 < rows f"
  shows "same_shape (for_span 0 (cols f - 1) (boundary_column m) f) f
   \<and> cells (for_span 0 (cols f - 1) (boundary_column m) f) (i, j) =
     (if 0 \<le> j \<and> j < cols f \<and> i = - 1 then ghost_value (policy f) m Top (cells f (0, j))
      else if 0 \<le> j \<and> j < cols f \<and> i = rows f
        then ghost_value (policy f) m Bottom (cells f (rows f - 1, j))
      else cells f (i, j))"
proof -
  let ?Q = "\<lambda>s. same_shape s f \<and> (\<forall>j. cells s (0, j) = cells f (0, j)
      \<and> cells s (rows f - 1, j) = cells f (rows f - 1, j))"
  have Q0: "?Q f" by (simp add: same_shape_def)
  have Qstep: "?Q (boundary_column m k s)" if "?Q s" for k s
    using that r by (simp add: same_shape_def boundary_column_shape boundary_column_cells)
  have shape: "same_shape (for_span 0 (cols f - 1) (boundary_column m) f) f"
  proof -
    have "?Q (for_span 0 (cols f - 1) (boundary_column m) f)"
      by (rule for_span_inv [where Q = ?Q]) (use Q0 Qstep in blast)+
    then show ?thesis by simp
  qed
  have cell: "cells (for_span 0 (cols f - 1) (boundary_column m) f) (i, j) =
     (if 0 \<le> j \<and> j < cols f \<and> i = - 1 then ghost_value (policy f) m Top (cells f (0, j))
      else if 0 \<le> j \<and> j < cols f \<and> i = rows f
        then ghost_value (policy f) m Bottom (cells f (rows f - 1, j))
      else cells f (i, j))"
  proof (cases "0 \<le> j \<and> j < cols f \<and> (i = - 1 \<or> i = rows f)")
    case True
    let ?P = "\<lambda>s. cells s (i, j) =
       (if i = - 1 then ghost_value (policy f) m Top (cells f (0, j))
        else ghost_value (policy f) m Bottom (cells f (rows f - 1, j)))"
    have "?P (for_span 0 (cols f - 1) (boundary_column m) f)"
    proof (rule for_span_post [where Q = ?Q and k = j])
      show "?P (boundary_column m j s)" if "?Q s" for s
        using that r True by (auto simp add: same_shape_def boundary_column_cells)
      show "?P (boundary_column m k' s)" if "k' \<noteq> j" "?Q s" "?P s" for k' s
        using that r by (simp add: same_shape_def boundary_column_cells)
    qed (use True Q0 Qstep in auto)
    then show ?thesis using True r by auto
  next
    case False
    let ?P = "\<lambda>s. same_shape s f \<and> cells s (i, j) = cells f (i, j)"
    have "?P (for_span 0 (cols f - 1) (boundary_column m) f)"
    proof (rule for_span_inv [where Q = ?P])
      show "?P f" by (simp add: same_shape_def)
      show "?P (boundary_column m k s)" if "0 \<le> k" "k \<le> cols f - 1" "?P s" for k s
        using that r False
        by (auto simp add: same_shape_def boundary_column_shape boundary_column_cells)
    qed
    then show ?thesis using False by auto
  qed
  show ?thesis using shape cell by blast
qed

lemma row_pass_cells:
  assumes c: "0 < cols f" and r: "0 < rows f"
  shows "same_shape (for_span (- 1) (rows f) (boundary_row m) f) f
   \<and> cells (for_span (- 1) (rows f) (boundary_row m) f) (i, j) =
     (if - 1 \<le> i \<and> i \<le> rows f \<and> j = - 1 then ghost_value (policy f) m Left (cells f (i, 0))
      else if - 1 \<le> i \<and> i \<le> rows f \<and> j = cols f
        then ghost_value (policy f) m Right (cells f (i, cols f - 1))
      else cells f (i, j))"
proof -
  let ?Q = "\<lambda>s. same_shape s f \<and> (\<forall>i. cells s (i, 0) = cells f (i, 0)
      \<and> cells s (i, cols f - 1) = cells f (i, cols f - 1))"
  have Q0: "?Q f" by (simp add: same_shape_def)
  have Qstep: "?Q (boundary_row m k s)" if "?Q s" for k s
    using that c by (simp add: same_shape_def boundary_row_shape boundary_row_cells)
  have shape: "same_shape (for_span (- 1) (rows f) (boundary_row m) f) f"
  proof -
    have "?Q (for_span (- 1) (rows f) (boundary_row m) f)"
      by (rule for_span_inv [where Q = ?Q]) (use Q0 Qstep in blast)+
    then show ?thesis by simp
  qed
  have cell: "cells (for_span (- 1) (rows f) (boundary_row m) f) (i, j) =
     (if - 1 \<le> i \<and> i \<le> rows f \<and> j = - 1 then ghost_value (policy f) m Left (cells f (i, 0))
      else if - 1 \<le> i \<and> i \<le> rows f \<and> j = cols f
        then ghost_value (policy f) m Right (cells f (i, cols f - 1))
      else cells f (i, j))"
  proof (cases "- 1 \<le> i \<and> i \<le> rows f \<and> (j = - 1 \<or> j = cols f)")
    case True
    let ?P = "\<lambda>s. cells s (i, j) =
       (if j = - 1 then ghost_value (policy f) m Left (cells f (i, 0))
        else ghost_value (policy f) m Right (cells f (i, cols f - 1)))"
    have "?P (for_span (- 1) (rows f) (boundary_row m) f)"
    proof (rule for_span_post [where Q = ?Q and k = i])
      show "?P (boundary_row m i s)" if "?Q s" for s
        using that c True by (auto simp add: same_shape_def boundary_row_cells)
      show "?P (boundary_row m k' s)" if "k' \<noteq> i" "?Q s" "?P s" for k' s
        using that c by (simp add: same_shape_def boundary_row_cells)
    qed (use True Q0 Qstep in auto)
    then show ?thesis using True c by auto
  next
    case False
    let ?P = "\<lambda>s. same_shape s f \<and> cells s (i, j) = cells f (i, j)"
    have "?P (for_span (- 1) (rows f) (boundary_row m) f)"
    proof (rule for_span_inv [where Q = ?P])
      show "?P f" by (simp add: same_shape_def)
      show "?P (boundary_row m k s)" if "- 1 \<le> k" "k \<le> rows f" "?P s" for k s
        using that c False
        by (auto simp add: same_shape_def boundary_row_shape boundary_row_cells)
    qed
    then show ?thesis using False by auto
  qed
  show ?thesis using shape cell by blast
qed

lemma update_boundary_shape:
  assumes "0 < rows f" "0 < cols f"
  shows "same_shape (update_boundary m f) f"
proof -
  let ?g = "for_span 0 (cols f - 1) (boundary_column m) f"
  have g: "same_shape ?g f" using column_pass_cells [OF assms(1)] by blast
  then have "0 < cols ?g" "0 < rows ?g" using assms by (simp_all add: same_shape_def)
  then have "same_shape (for_span (- 1) (rows ?g) (boundary_row m) ?g) ?g"
    using row_pass_cells [of ?g m] by blast
  then show ?thesis
    using g by (simp add: update_boundary_def same_shape_def)
qed

text \<open>The ring after the first pass: the top and bottom ghost rows are refreshed.\<close>

lemma update_boundary_cells:
  assumes "0 < rows f" "0 < cols f"
  shows "cells (update_boundary m f) (i, j) =
     (if policy f = DONTCARE then cells f (i, j)
      else if 0 \<le> i \<and> i < rows f \<and> j = - 1 then ghost_value (policy f) m Left (cells f (i, 0))
      else if 0 \<le> i \<and> i < rows f \<and> j = cols f
        then ghost_value (policy f) m Right (cells f (i, cols f - 1))
      else if 0 \<le> j \<and> j < cols f \<and> i = - 1 then ghost_value (policy f) m Top (cells f (0, j))
      else if 0 \<le> j \<and> j < cols f \<and> i = rows f
        then ghost_value (policy f) m Bottom (cells f (rows f - 1, j))
      else if i = - 1 \<and> j = - 1
        then ghost_value (policy f) m Left (ghost_value (policy f) m Top (cells f (0, 0)))
      else if i = - 1 \<and> j = cols f
        then ghost_value (policy f) m Right (ghost_value (policy f) m Top (cells f (0, cols f - 1)))
      else if i = rows f \<and> j = - 1
        then ghost_value (policy f) m Left (ghost_value (policy f) m Bottom (cells f (rows f - 1, 0)))
      else if i = rows f \<and> j = cols f
        then ghost_value (policy f) m Right
               (ghost_value (policy f) m Bottom (cells f (rows f - 1, cols f - 1)))
      else cells f (i, j))"
proof (cases "policy f = DONTCARE")
  case True
  then show ?thesis by (simp add: update_boundary_def)
next
  case False
  let ?g = "for_span 0 (cols f - 1) (boundary_column m) f"
  have g: "same_shape ?g f" using column_pass_cells [OF assms(1)] by blast
  then have c: "0 < cols ?g" and r: "0 < rows ?g" using assms by (simp_all add: same_shape_def)
  have gc: "cells ?g (a, b) =
     (if 0 \<le> b \<and> b < cols f \<and> a = - 1 then ghost_value (policy f) m Top (cells f (0, b))
      else if 0 \<le> b \<and> b < cols f \<and> a = rows f
        then ghost_value (policy f) m Bottom (cells f (rows f - 1, b))
      else cells f (a, b))" for a b
    using column_pass_cells [OF assms(1)] by blast
  have "cells (update_boundary m f) (i, j) =
      cells (for_span (- 1) (rows ?g) (boundary_row m) ?g) (i, j)"
    using False g by (simp add: update_boundary_def same_shape_def)
  also have "\<dots> =
     (if - 1 \<le> i \<and> i \<le> rows ?g \<and> j = - 1
        then ghost_value (policy ?g) m Left (cells ?g (i, 0))
      else if - 1 \<le> i \<and> i \<le> rows ?g \<and> j = cols ?g
        then ghost_value (policy ?g) m Right (cells ?g (i, cols ?g - 1))
      else cells ?g (i, j))"
    using row_pass_cells [OF c r] by blast
  finally show ?thesis
    using False g assms by (auto simp add: gc same_shape_def)
qed

lemma update_boundary_ring:
  assumes pos: "0 < rows f" "0 < cols f" and "policy f \<noteq> DONTCARE"
    and "- 1 \<le> i" "i \<le> rows f" "- 1 \<le> j" "j \<le> cols f"
  shows "cells (update_boundary m f) (i, j) =
     across (policy f) m f i j (cells f (nearest (rows f) i, nearest (cols f) j))"
proof -
  consider "i = - 1" | "i = rows f" | "0 \<le> i \<and> i < rows f"
    using assms by linarith
  then show ?thesis
  proof cases
    case 1
    consider "j = - 1" | "j = cols f" | "0 \<le> j \<and> j < cols f"
      using assms by linarith
    then show ?thesis
      using 1 assms(1-3)
      by cases (simp_all add: update_boundary_cells [OF pos] across_def nearest_def)
  next
    case 2
    consider "j = - 1" | "j = cols f" | "0 \<le> j \<and> j < cols f"
      using assms by linarith
    then show ?thesis
      using 2 assms(1-3)
      by cases (simp_all add: update_boundary_cells [OF pos] across_def nearest_def)
  next
    case 3
    consider "j = - 1" | "j = cols f" | "0 \<le> j \<and> j < cols f"
      using assms by linarith
    then show ?thesis
      using 3 assms(1-3)
      by cases (simp_all add: update_boundary_cells [OF pos] across_def nearest_def)
  qed
qed

lemma update_boundary_interior:
  assumes pos: "0 < rows f" "0 < cols f" and "0 \<le> i" "i < rows f" "0 \<le> j" "j < cols f"
  shows "cells (update_boundary m f) (i, j) = cells f (i, j)"
  using assms by (simp add: update_boundary_cells [OF pos])

lemma across_zero:
  assumes "\<And>w. ghost_value bc m w 0 = 0"
  shows "across bc m f i j 0 = 0"
  using assms by (simp add: across_def Let_def)

lemma nearest_range: "0 < n \<Longrightarrow> 0 \<le> nearest n k \<and> nearest n k < n"
  by (simp add: nearest_def)

lemma update_boundary_outside:
  assumes pos: "0 < rows f" "0 < cols f"
    and out: "i < - 1 \<or> rows f < i \<or> j < - 1 \<or> cols f < j"
  shows "cells (update_boundary m f) (i, j) = cells f (i, j)"
proof -
  consider "i < - 1" | "rows f < i" | "j < - 1" | "cols f < j"
    using out by blast
  then show ?thesis
    using pos by cases (simp_all add: update_boundary_cells [OF pos])
qed

lemma update_boundary_zero_all:
  assumes z: "cells p = (\<lambda>_. 0)" and pos: "0 < rows p" "0 < cols p"
    and m: "\<And>w. ghost_value (policy p) m w 0 = 0"
  shows "cells (update_boundary m p) c = 0"
proof (cases c)
  case (Pair i j)
  show ?thesis
  proof (cases "policy p = DONTCARE")
    case True
    then show ?thesis using z by (simp add: update_boundary_def)
  next
    case False
    show ?thesis
    proof (cases "- 1 \<le> i \<and> i \<le> rows p \<and> - 1 \<le> j \<and> j \<le> cols p")
      case True
      then show ?thesis
        using update_boundary_ring [OF pos False, of i j m] z across_zero [OF m] Pair by simp
    next
      case False
      then have "i < - 1 \<or> rows p < i \<or> j < - 1 \<or> cols p < j" by linarith
      then show ?thesis
        using update_boundary_outside [OF pos, of i j m] z Pair by simp
    qed
  qed
qed

lemma across_negate_normal:
  assumes "0 < rows f" "0 < cols f"
  shows "across NEGATIVE negate_normal f i j a =
     Vector (if j = - 1 \<or> j = cols f then - vx a else vx a)
            (if i = - 1 \<or> i = rows f then - vy a else vy a)"
  using assms by (simp add: across_def ghost_value_def negate_normal_def)

lemma across_clone: "across CLONE m f i j a = a"
  by (simp add: across_def ghost_value_def)

text \<open>
  C4. After \<open>update_boundary\<close> on a grid of at least one row and one column, every ghost
  cell, the four corners included, is determined by the interior cell next to it (for a
  corner, the one diagonally next to it). If the policy is \<open>NEGATIVE\<close> (Mirror-negate) the
  ghost cell equals that interior cell with the component normal to the wall negated:
  the \<open>y\<close> component in the top and bottom ghost rows, the \<open>x\<close> component in the left and
  right ghost columns, both at a corner, which lies on two walls. If the policy is \<open>CLONE\<close>
  the ghost cell equals that interior cell. The interior cells are as before.
\<close>

theorem update_boundary_policy:
  fixes f :: "Vector Field" and h :: "'a Field"
  assumes "0 < rows f" "0 < cols f" and "0 < rows h" "0 < cols h"
  shows "(let u = update_boundary negate_normal f;
              a = index u (nearest (rows f) i) (nearest (cols f) j)
          in (ghost f i j \<and> policy f = NEGATIVE \<longrightarrow>
                index u i j = Vector (if j = - 1 \<or> j = cols f then - vx a else vx a)
                                     (if i = - 1 \<or> i = rows f then - vy a else vy a))
             \<and> (interior f i j \<longrightarrow> index u i j = index f i j))
    \<and> (let u = update_boundary m h
        in (ghost h k l \<and> policy h = CLONE \<longrightarrow>
              index u k l = index u (nearest (rows h) k) (nearest (cols h) l))
           \<and> (interior h k l \<longrightarrow> index u k l = index h k l))"
proof -
  define u where "u = update_boundary negate_normal f"
  define a where "a = index u (nearest (rows f) i) (nearest (cols f) j)"
  define w where "w = update_boundary m h"
  have nf: "a = cells f (nearest (rows f) i, nearest (cols f) j)"
    using nearest_range [OF assms(1), of i] nearest_range [OF assms(2), of j]
    by (simp add: a_def u_def index_def update_boundary_interior [OF assms(1,2)])
  have nh: "index w (nearest (rows h) k) (nearest (cols h) l)
      = cells h (nearest (rows h) k, nearest (cols h) l)"
    using nearest_range [OF assms(3), of k] nearest_range [OF assms(4), of l]
    by (simp add: w_def index_def update_boundary_interior [OF assms(3,4)])
  have A: "ghost f i j \<and> policy f = NEGATIVE \<longrightarrow>
      index u i j = Vector (if j = - 1 \<or> j = cols f then - vx a else vx a)
                           (if i = - 1 \<or> i = rows f then - vy a else vy a)"
  proof
    assume g: "ghost f i j \<and> policy f = NEGATIVE"
    then have "cells u (i, j) = across NEGATIVE negate_normal f i j a"
      using update_boundary_ring [OF assms(1,2), of i j negate_normal]
      by (simp add: ghost_def u_def nf)
    then show "index u i j = Vector (if j = - 1 \<or> j = cols f then - vx a else vx a)
                           (if i = - 1 \<or> i = rows f then - vy a else vy a)"
      by (simp only: index_def across_negate_normal [OF assms(1,2)])
  qed
  have B: "interior f i j \<longrightarrow> index u i j = index f i j"
    by (simp add: u_def index_def update_boundary_interior [OF assms(1,2)] interior_def)
  have C: "ghost h k l \<and> policy h = CLONE \<longrightarrow>
      index w k l = index w (nearest (rows h) k) (nearest (cols h) l)"
  proof
    assume g: "ghost h k l \<and> policy h = CLONE"
    then have "cells w (k, l) =
        across CLONE m h k l (cells h (nearest (rows h) k, nearest (cols h) l))"
      using update_boundary_ring [OF assms(3,4), of k l m]
      by (simp add: ghost_def w_def)
    then show "index w k l = index w (nearest (rows h) k) (nearest (cols h) l)"
      using nh by (simp add: across_clone index_def)
  qed
  have D: "interior h k l \<longrightarrow> index w k l = index h k l"
    by (simp add: w_def index_def update_boundary_interior [OF assms(3,4)] interior_def)
  show ?thesis
    unfolding Let_def
    using A B C D by (simp only: u_def a_def w_def)
qed

theorem update_boundary_policy_witness:
  "index (update_boundary negate_normal example_velocity) (- 1) 4 = Vector 4 (- 1)
   \<and> index (update_boundary negate_normal example_velocity) 80 4 = Vector 4 (- 80)
   \<and> index (update_boundary negate_normal example_velocity) 3 (- 1) = Vector 0 4
   \<and> index (update_boundary negate_normal example_velocity) 3 60 = Vector (- 59) 4
   \<and> index (update_boundary negate_normal example_velocity) (- 1) (- 1) = Vector 0 (- 1)
   \<and> index (update_boundary negate_normal example_velocity) 80 60 = Vector (- 59) (- 80)
   \<and> index (update_boundary negate_scalar example_scalar) 80 4 = 87
   \<and> index (update_boundary negate_scalar example_scalar) 3 (- 1) = 3
   \<and> index (update_boundary negate_scalar example_scalar) (- 1) 60 = 118"
proof -
  have p: "0 < rows example_velocity" "0 < cols example_velocity"
    "0 < rows example_scalar" "0 < cols example_scalar"
    by (simp_all add: example_velocity_def example_scalar_def)
  note th = update_boundary_policy [OF p, of _ _ negate_scalar]
  have i: "index (update_boundary negate_normal example_velocity) a b = index example_velocity a b"
    if "interior example_velocity a b" for a b
    using th [of a b 0 0] that by (simp add: Let_def)
  have isc: "index (update_boundary negate_scalar example_scalar) a b = index example_scalar a b"
    if "interior example_scalar a b" for a b
    using th [of 0 0 a b] that by (simp add: Let_def)
  have "index (update_boundary negate_normal example_velocity) (- 1) 4 = Vector 4 (- 1)"
    using th [of "- 1" 4 0 0] i [of 0 4]
    by (simp add: Let_def ghost_def interior_def nearest_def example_velocity_def index_def)
  moreover have "index (update_boundary negate_normal example_velocity) 80 4 = Vector 4 (- 80)"
    using th [of 80 4 0 0] i [of 79 4]
    by (simp add: Let_def ghost_def interior_def nearest_def example_velocity_def index_def)
  moreover have "index (update_boundary negate_normal example_velocity) 3 (- 1) = Vector 0 4"
    using th [of 3 "- 1" 0 0] i [of 3 0]
    by (simp add: Let_def ghost_def interior_def nearest_def example_velocity_def index_def)
  moreover have "index (update_boundary negate_normal example_velocity) 3 60 = Vector (- 59) 4"
    using th [of 3 60 0 0] i [of 3 59]
    by (simp add: Let_def ghost_def interior_def nearest_def example_velocity_def index_def)
  moreover have "index (update_boundary negate_normal example_velocity) (- 1) (- 1) = Vector 0 (- 1)"
    using th [of "- 1" "- 1" 0 0] i [of 0 0]
    by (simp add: Let_def ghost_def interior_def nearest_def example_velocity_def index_def)
  moreover have "index (update_boundary negate_normal example_velocity) 80 60 = Vector (- 59) (- 80)"
    using th [of 80 60 0 0] i [of 79 59]
    by (simp add: Let_def ghost_def interior_def nearest_def example_velocity_def index_def)
  moreover have "index (update_boundary negate_scalar example_scalar) 80 4 = 87"
    using th [of 0 0 80 4] isc [of 79 4]
    by (simp add: Let_def ghost_def interior_def nearest_def example_scalar_def index_def)
  moreover have "index (update_boundary negate_scalar example_scalar) 3 (- 1) = 3"
    using th [of 0 0 3 "- 1"] isc [of 3 0]
    by (simp add: Let_def ghost_def interior_def nearest_def example_scalar_def index_def)
  moreover have "index (update_boundary negate_scalar example_scalar) (- 1) 60 = 118"
    using th [of 0 0 "- 1" 60] isc [of 0 59]
    by (simp add: Let_def ghost_def interior_def nearest_def example_scalar_def index_def)
  ultimately show ?thesis by simp
qed

section \<open>Properties of the divergence\<close>

lemma divergence_write:
  "index (divergence dst v) i j =
     (if interior dst i j then divergence_cell v i j else index dst i j)"
  by (simp add: divergence_def index_def for_cells_write interior_def)

text \<open>
  C5. \<open>divergence dst velocity\<close> writes into every interior cell \<open>(i, j)\<close> of \<open>dst\<close> the
  value \<open>(vx(i, j+1) - vx(i, j-1)) / 2 + (vy(i+1, j) - vy(i-1, j)) / 2\<close> of the velocity
  field's four neighbours of that cell, and leaves every other cell of \<open>dst\<close> as it was.
\<close>

theorem divergence_interior:
  "index (divergence dst v) i j =
     (if interior dst i j
      then (vx (index v i (j + 1)) - vx (index v i (j - 1))) / 2
           + (vy (index v (i + 1) j) - vy (index v (i - 1) j)) / 2
      else index dst i j)"
  by (simp add: divergence_write divergence_cell_def)

theorem divergence_interior_witness:
  "index (divergence (new_Field 80 60 DONTCARE (\<lambda>_. 7)) example_velocity) 3 4 = 2
   \<and> index (divergence (new_Field 80 60 DONTCARE (\<lambda>_. 7)) example_velocity) 80 4 = 7"
  using divergence_interior [of "new_Field 80 60 DONTCARE (\<lambda>_. 7)" example_velocity 3 4]
    divergence_interior [of "new_Field 80 60 DONTCARE (\<lambda>_. 7)" example_velocity 80 4]
  by (simp add: interior_def new_Field_def example_velocity_def index_def)

section \<open>Properties of the advection\<close>

lemma bilinear_at_cell: "bilinear src (of_int i) (of_int j) = index src i j"
  by (simp add: bilinear_def)

lemma backtrace_zero:
  assumes "0 \<le> margin" "0 \<le> i" "i < r" "0 \<le> j" "j < c" "index v i j = 0"
  shows "backtrace margin r c v dt i j = (of_int i, of_int j)"
  using assms by (simp add: backtrace_def clamp_def zero_Vector_def)

lemma advect_interior:
  assumes "interior dest i j"
  shows "index (semilagrangian_advect margin mirror dest src v dt) i j =
     advect_cell margin (rows dest) (cols dest) src v dt i j"
proof -
  let ?d = "for_cells (rows dest) (cols dest)
          (\<lambda>i j d. set_index d i j (advect_cell margin (rows dest) (cols dest) src v dt i j)) dest"
  have shape: "rows ?d = rows dest" "cols ?d = cols dest"
    using for_cells_write_shape [of "rows dest" "cols dest" _ dest] by simp_all
  have pos: "0 < rows ?d" "0 < cols ?d"
    using assms shape by (auto simp add: interior_def)
  show ?thesis
    using assms shape
    by (simp add: semilagrangian_advect_def index_def update_boundary_interior [OF pos]
        for_cells_write interior_def)
qed

lemma advect_zero_cell:
  assumes "interior dest i j" and "0 \<le> margin" and "index vel i j = 0"
  shows "index (semilagrangian_advect margin mirror dest src vel dt) i j = index src i j"
  using assms
  by (simp add: advect_interior advect_cell_def backtrace_zero interior_def bilinear_at_cell)

text \<open>
  C6. Where the velocity is zero, \<open>semilagrangian_advect\<close> is the identity: every interior
  cell of the destination at which the velocity field is zero receives the value of the
  source at that cell, exactly (so within any tolerance), for every sampling domain that
  contains the interior. A velocity field that is zero everywhere gives the identity on
  the whole interior.
\<close>

theorem advect_zero_velocity:
  assumes "interior dest i j" and "0 \<le> margin" and "index vel i j = 0"
  shows "index (semilagrangian_advect margin mirror dest src vel dt) i j = index src i j"
  using assms by (rule advect_zero_cell)

theorem advect_zero_velocity_witness:
  "index (semilagrangian_advect (1 / 2) negate_scalar (new_Field 80 60 CLONE (\<lambda>_. 7))
      example_scalar (const_field 80 60 NEGATIVE 0) DT) 3 4 = 11"
  using advect_zero_velocity [of "new_Field 80 60 CLONE (\<lambda>_. 7)" 3 4 "1 / 2"
      "const_field 80 60 NEGATIVE 0" negate_scalar example_scalar DT]
  by (simp add: interior_def new_Field_def const_field_def index_def example_scalar_def)

section \<open>The rotation against the naive scheme\<close>

lemma across_shape:
  "rows f = rows g \<Longrightarrow> cols f = cols g \<Longrightarrow> across bc m f i j a = across bc m g i j a"
  by (simp add: across_def)

lemma advect_ring:
  assumes pos: "0 < rows d" "0 < cols d" and pol: "policy d \<noteq> DONTCARE"
    and ring: "- 1 \<le> i" "i \<le> rows d" "- 1 \<le> j" "j \<le> cols d"
  shows "cells (semilagrangian_advect margin mirror d src vel dt) (i, j) =
     across (policy d) mirror d i j
       (advect_cell margin (rows d) (cols d) src vel dt (nearest (rows d) i) (nearest (cols d) j))"
proof -
  let ?w = "for_cells (rows d) (cols d)
          (\<lambda>i j x. set_index x i j (advect_cell margin (rows d) (cols d) src vel dt i j)) d"
  have shape: "rows ?w = rows d" "cols ?w = cols d" "policy ?w = policy d"
    using for_cells_write_shape [of "rows d" "cols d" _ d] by simp_all
  have pos': "0 < rows ?w" "0 < cols ?w" and pol': "policy ?w \<noteq> DONTCARE"
    using pos pol shape by simp_all
  have ring': "- 1 \<le> i" "i \<le> rows ?w" "- 1 \<le> j" "j \<le> cols ?w"
    using ring shape by simp_all
  have n: "cells ?w (nearest (rows d) i, nearest (cols d) j) =
      advect_cell margin (rows d) (cols d) src vel dt (nearest (rows d) i) (nearest (cols d) j)"
    using nearest_range [OF pos(1), of i] nearest_range [OF pos(2), of j]
    by (simp add: for_cells_write)
  show ?thesis
    using update_boundary_ring [OF pos' pol' ring', of mirror] n
    by (simp add: semilagrangian_advect_def shape across_shape [of ?w d])
qed

lemma advect_shape:
  assumes pos: "0 < rows d" "0 < cols d"
  shows "same_shape (semilagrangian_advect margin mirror d src vel dt) d"
proof -
  let ?w = "for_cells (rows d) (cols d)
          (\<lambda>i j x. set_index x i j (advect_cell margin (rows d) (cols d) src vel dt i j)) d"
  have shape: "rows ?w = rows d" "cols ?w = cols d" "policy ?w = policy d"
    using for_cells_write_shape [of "rows d" "cols d" _ d] by simp_all
  have "same_shape (update_boundary mirror ?w) ?w"
    by (rule update_boundary_shape) (use pos shape in simp_all)
  then show ?thesis
    using shape by (simp add: semilagrangian_advect_def same_shape_def)
qed

lemma advect_overwrites:
  assumes "same_shape d d'" and pos: "0 < rows d" "0 < cols d" and pol: "policy d \<noteq> DONTCARE"
  shows "whole_field (semilagrangian_advect margin mirror d src vel dt)
    = whole_field (semilagrangian_advect margin mirror d' src vel dt)"
proof -
  have eq: "rows d' = rows d" "cols d' = cols d" "policy d' = policy d"
    using assms(1) by (simp_all add: same_shape_def)
  have pos': "0 < rows d'" "0 < cols d'" and pol': "policy d' \<noteq> DONTCARE"
    using pos pol eq by simp_all
  let ?u = "semilagrangian_advect margin mirror d src vel dt"
  let ?u' = "semilagrangian_advect margin mirror d' src vel dt"
  have su: "rows ?u = rows d" "cols ?u = cols d" "policy ?u = policy d"
    using advect_shape [OF pos, of margin mirror src vel dt] by (simp_all add: same_shape_def)
  have su': "rows ?u' = rows d" "cols ?u' = cols d" "policy ?u' = policy d"
    using advect_shape [OF pos', of margin mirror src vel dt] eq by (simp_all add: same_shape_def)
  have c: "cells ?u (i, j) = cells ?u' (i, j)"
    if "- 1 \<le> i" "i \<le> rows d" "- 1 \<le> j" "j \<le> cols d" for i j
  proof -
    have r': "- 1 \<le> i" "i \<le> rows d'" "- 1 \<le> j" "j \<le> cols d'" using that eq by simp_all
    show ?thesis
      using advect_ring [OF pos pol that, of margin mirror src vel dt]
        advect_ring [OF pos' pol' r', of margin mirror src vel dt] eq
      by (simp add: across_shape [of d' d])
  qed
  show ?thesis
    using c by (auto simp add: whole_field_def su su' fun_eq_iff)
qed

text \<open>
  C3. From a state whose three channel pointers are live and distinct, with \<^verbatim>\<open>new\<close>
  returning an address that is not live, the commit step returns; afterwards the red
  pointer holds the advection of the old red field (written into the fresh buffer), the
  green pointer the advection of the old green field (written into the old red buffer)
  and the blue pointer the advection of the old blue field (written into the old green
  buffer); exactly one object, the old blue buffer, has left the heap and exactly one,
  the fresh buffer, has entered it. All buffers have the dimensions and policy of the
  fresh one. For every observation \<open>obs\<close> of a field that the advection operator
  determines from the source, velocity and time step alone, whatever a destination of
  these dimensions and policy held before, the three channels observed after the
  rotation are those observed after the naive scheme, which advects each channel into a
  fresh buffer of its own: the advection of that same channel's field before the commit.
  The operator of the specification satisfies this for the observation that returns
  everything a field holds, its dimensions, policy and all cells of interior and ring.
\<close>

theorem commit_rotation:
  assumes R: "heap s (red_field s) = Some R"
    and G: "heap s (green_field s) = Some G"
    and B: "heap s (blue_field s) = Some B"
    and d: "distinct [red_field s, green_field s, blue_field s]"
    and fresh: "a \<notin> dom (heap s)"
    and fresh_naive: "a1 \<notin> dom (heap s)" "a2 \<notin> dom (heap s)" "a3 \<notin> dom (heap s)"
      "distinct [a1, a2, a3]"
    and shapes: "same_shape R f" "same_shape G f"
      "same_shape f1 f" "same_shape f2 f" "same_shape f3 f"
    and overwrites: "\<And>d d' src. same_shape d f \<Longrightarrow> same_shape d' f \<Longrightarrow>
      obs (adv d src vel DT) = obs (adv d' src vel DT)"
  shows "\<exists>s'. commit adv a f vel s = Some s'
    \<and> channels s' = (Some (adv f R vel DT), Some (adv R G vel DT), Some (adv G B vel DT))
    \<and> dom (heap s) - dom (heap s') = {blue_field s}
    \<and> dom (heap s') - dom (heap s) = {a}
    \<and> (\<forall>x. x \<noteq> a \<and> x \<notin> {red_field s, green_field s, blue_field s} \<longrightarrow> heap s' x = heap s x)
    \<and> observe obs s' =
        (Some (obs (adv f1 R vel DT)), Some (obs (adv f2 G vel DT)), Some (obs (adv f3 B vel DT)))
    \<and> map_option (observe obs) (commit_naive adv (a1, a2, a3) (f1, f2, f3) vel s)
        = Some (observe obs s')"
proof -
  let ?s' = "\<lparr>red_field = a, green_field = red_field s, blue_field = green_field s,
       heap = (heap s)(a \<mapsto> adv f R vel DT, red_field s \<mapsto> adv R G vel DT,
                green_field s \<mapsto> adv G B vel DT, blue_field s := None)\<rparr>"
  have na: "a \<noteq> red_field s" "a \<noteq> green_field s" "a \<noteq> blue_field s"
    using R G B fresh by auto
  have na': "a1 \<noteq> red_field s" "a1 \<noteq> green_field s" "a1 \<noteq> blue_field s"
     "a2 \<noteq> red_field s" "a2 \<noteq> green_field s" "a2 \<noteq> blue_field s"
     "a3 \<noteq> red_field s" "a3 \<noteq> green_field s" "a3 \<noteq> blue_field s"
    using R G B fresh_naive by auto
  have live: "red_field s \<in> dom (heap s)" "green_field s \<in> dom (heap s)"
    "blue_field s \<in> dom (heap s)"
    using R G B by auto
  have ff: "same_shape f f" by (simp add: same_shape_def)
  have o1: "obs (adv f R vel DT) = obs (adv f1 R vel DT)"
    by (rule overwrites [OF ff shapes(3)])
  have o2: "obs (adv R G vel DT) = obs (adv f2 G vel DT)"
    by (rule overwrites [OF shapes(1) shapes(4)])
  have o3: "obs (adv G B vel DT) = obs (adv f3 B vel DT)"
    by (rule overwrites [OF shapes(2) shapes(5)])
  have c: "commit adv a f vel s = Some ?s'"
    by (rule commit_result [OF R G B d fresh])
  have ch: "channels ?s' = (Some (adv f R vel DT), Some (adv R G vel DT), Some (adv G B vel DT))"
    using d na by (simp add: channels_def)
  have freed: "dom (heap s) - dom (heap ?s') = {blue_field s}"
    using d na live fresh by auto
  have allocated: "dom (heap ?s') - dom (heap s) = {a}"
    using d na live fresh by auto
  have frame: "\<forall>x. x \<noteq> a \<and> x \<notin> {red_field s, green_field s, blue_field s} \<longrightarrow> heap ?s' x = heap s x"
    by simp
  have o: "observe obs ?s' =
        (Some (obs (adv f1 R vel DT)), Some (obs (adv f2 G vel DT)), Some (obs (adv f3 B vel DT)))"
    using d na o1 o2 o3 by (simp add: observe_def)
  have n: "map_option (observe obs) (commit_naive adv (a1, a2, a3) (f1, f2, f3) vel s)
        = Some (observe obs ?s')"
    using d na na' fresh_naive(4) o1 o2 o3
    by (simp add: commit_naive_result [OF R G B d fresh_naive] observe_def)
  show ?thesis
    using c ch freed allocated frame o n by blast
qed

theorem commit_rotation_witness:
  "\<exists>s'. commit (semilagrangian_advect (1 / 2) negate_scalar) 3 (new_Field 80 60 CLONE (\<lambda>_. 7))
           example_velocity example_colors = Some s'
    \<and> dom (heap example_colors) - dom (heap s') = {2}
    \<and> dom (heap s') - dom (heap example_colors) = {3}
    \<and> red_field s' = 3 \<and> green_field s' = 0 \<and> blue_field s' = 1
    \<and> map_option (observe whole_field)
         (commit_naive (semilagrangian_advect (1 / 2) negate_scalar) (4, 5, 6)
            (new_Field 80 60 CLONE (\<lambda>_. 1), new_Field 80 60 CLONE (\<lambda>_. 2),
             new_Field 80 60 CLONE (\<lambda>_. 3)) example_velocity example_colors)
        = Some (observe whole_field s')"
proof -
  let ?adv = "semilagrangian_advect (1 / 2) negate_scalar :: (real, Vector Field) advect"
  let ?f = "new_Field 80 60 CLONE (\<lambda>_. 7) :: real Field"
  have R: "heap example_colors (red_field example_colors) = Some (const_field 80 60 CLONE 1)"
    and G: "heap example_colors (green_field example_colors) = Some (const_field 80 60 CLONE 2)"
    and B: "heap example_colors (blue_field example_colors) = Some (const_field 80 60 CLONE 3)"
    by (simp_all add: example_colors_def)
  have d: "distinct [red_field example_colors, green_field example_colors,
      blue_field example_colors]"
    by (simp add: example_colors_def)
  have fresh: "3 \<notin> dom (heap example_colors)" "4 \<notin> dom (heap example_colors)"
    "5 \<notin> dom (heap example_colors)" "6 \<notin> dom (heap example_colors)"
    "distinct [4::nat, 5, 6]"
    by (simp_all add: example_colors_def)
  have shapes: "same_shape (const_field 80 60 CLONE (1::real)) ?f"
    "same_shape (const_field 80 60 CLONE (2::real)) ?f"
    "same_shape (new_Field 80 60 CLONE (\<lambda>_. 1::real)) ?f"
    "same_shape (new_Field 80 60 CLONE (\<lambda>_. 2::real)) ?f"
    "same_shape (new_Field 80 60 CLONE (\<lambda>_. 3::real)) ?f"
    by (simp_all add: same_shape_def const_field_def new_Field_def)
  have ow: "whole_field (?adv x src example_velocity DT) = whole_field (?adv x' src example_velocity DT)"
    if "same_shape x ?f" "same_shape x' ?f" for x x' src
  proof -
    have "same_shape x x'" "0 < rows x" "0 < cols x" "policy x \<noteq> DONTCARE"
      using that by (simp_all add: same_shape_def new_Field_def)
    then show ?thesis by (rule advect_overwrites)
  qed
  from commit_rotation [where obs = whole_field and adv = ?adv and vel = example_velocity,
      OF R G B d fresh shapes ow]
  obtain s' where c: "commit ?adv 3 ?f example_velocity example_colors = Some s'"
    and ch: "channels s' =
      (Some (?adv ?f (const_field 80 60 CLONE 1) example_velocity DT),
       Some (?adv (const_field 80 60 CLONE 1) (const_field 80 60 CLONE 2) example_velocity DT),
       Some (?adv (const_field 80 60 CLONE 2) (const_field 80 60 CLONE 3) example_velocity DT))"
    and freed: "dom (heap example_colors) - dom (heap s') = {blue_field example_colors}"
    and alloc: "dom (heap s') - dom (heap example_colors) = {3}"
    and n: "map_option (observe whole_field)
         (commit_naive ?adv (4, 5, 6)
            (new_Field 80 60 CLONE (\<lambda>_. 1), new_Field 80 60 CLONE (\<lambda>_. 2),
             new_Field 80 60 CLONE (\<lambda>_. 3)) example_velocity example_colors)
        = Some (observe whole_field s')"
    by blast
  have p: "red_field s' = 3 \<and> green_field s' = 0 \<and> blue_field s' = 1"
    using c commit_result [OF R G B d fresh(1), of ?adv ?f example_velocity]
    by (auto simp add: example_colors_def)
  show ?thesis
    using c freed alloc n p by (simp add: example_colors_def)
qed

section \<open>Properties of a tick without motion\<close>

lemma negate_normal_zero: "negate_normal w 0 = 0"
  by (cases w) (simp_all add: negate_normal_def zero_Vector_def)

lemma ghost_value_zero_vector: "ghost_value bc negate_normal w 0 = 0"
  by (cases bc) (simp_all add: ghost_value_def negate_normal_zero)

lemma ghost_value_zero_scalar: "ghost_value bc negate_scalar w 0 = 0"
  by (cases bc) (simp_all add: ghost_value_def negate_scalar_def)

lemma update_boundary_zero_stencil:
  assumes "zero_interior w" and "policy w \<noteq> DONTCARE" and pos: "0 < rows w" "0 < cols w"
    and m: "\<And>wall. ghost_value (policy w) m wall 0 = 0"
  shows "zero_stencil (update_boundary m w) \<and> same_shape (update_boundary m w) w"
proof -
  have sh: "same_shape (update_boundary m w) w"
    by (rule update_boundary_shape [OF pos])
  have z: "cells w (nearest (rows w) a, nearest (cols w) b) = 0" for a b
    using assms(1) nearest_range [OF pos(1), of a] nearest_range [OF pos(2), of b]
    by (simp add: zero_interior_def interior_def index_def)
  have ring: "cells (update_boundary m w) (a, b) = 0"
    if "- 1 \<le> a" "a \<le> rows w" "- 1 \<le> b" "b \<le> cols w" for a b
    using update_boundary_ring [OF pos assms(2) that, of m] z across_zero [OF m] by simp
  have "index (update_boundary m w) i j = 0 \<and> index (update_boundary m w) (i - 1) j = 0
      \<and> index (update_boundary m w) (i + 1) j = 0 \<and> index (update_boundary m w) i (j - 1) = 0
      \<and> index (update_boundary m w) i (j + 1) = 0"
    if "0 \<le> i" "i < rows w" "0 \<le> j" "j < cols w" for i j
    using that by (simp add: index_def ring)
  then show ?thesis
    using sh by (simp add: zero_stencil_def interior_def same_shape_def)
qed

lemma divergence_zero:
  assumes "zero_stencil v" and "rows dst = rows v" "cols dst = cols v" and "interior dst i j"
  shows "index (divergence dst v) i j = 0"
proof -
  have "interior v i j" using assms by (simp add: interior_def)
  then have "index v (i - 1) j = 0 \<and> index v (i + 1) j = 0
        \<and> index v i (j - 1) = 0 \<and> index v i (j + 1) = 0"
    using assms(1) by (simp add: zero_stencil_def)
  then show ?thesis
    using assms(4) by (simp add: divergence_write divergence_cell_def zero_Vector_def)
qed

lemma divergence_shape: "same_shape (divergence dst v) dst"
  using for_cells_write_shape [of "rows dst" "cols dst" _ dst]
  by (simp add: divergence_def same_shape_def)

lemma set_index_same: "cells p (i, j) = x \<Longrightarrow> set_index p i j x = p"
  by (simp add: set_index_def fun_upd_idem)

lemma sweep_zero:
  assumes z: "cells p = (\<lambda>_. 0)" and pos: "0 < rows p" "0 < cols p"
    and d: "\<And>i j. interior p i j \<Longrightarrow> index dvg i j = 0"
  shows "cells (sweep dvg p) = (\<lambda>_. 0) \<and> same_shape (sweep dvg p) p"
proof -
  let ?q = "for_cells (rows p) (cols p) (relax_cell dvg) p"
  have q: "?q = p"
  proof (rule for_cells_inv [where Q = "\<lambda>s. s = p"])
    show "relax_cell dvg i j s = p"
      if "0 \<le> i" "i < rows p" "0 \<le> j" "j < cols p" "s = p" for i j s
    proof -
      have "index dvg i j = 0" using that d by (simp add: interior_def)
      then show ?thesis using that z by (simp add: relax_cell_def set_index_same index_def)
    qed
  qed simp
  have sh: "same_shape (update_boundary negate_scalar p) p"
    by (rule update_boundary_shape [OF pos])
  have "cells (update_boundary negate_scalar p) c = 0" for c
    by (rule update_boundary_zero_all [OF z pos]) (rule ghost_value_zero_scalar)
  then show ?thesis
    using q sh by (auto simp add: sweep_def)
qed

lemma gauss_seidel_zero:
  assumes pos: "0 < rows p" "0 < cols p"
    and d: "\<And>i j. interior p i j \<Longrightarrow> index dvg i j = 0"
  shows "cells (gauss_seidel_pressure n p dvg) = (\<lambda>_. 0)
    \<and> same_shape (gauss_seidel_pressure n p dvg) p"
proof (induction n)
  case 0
  then show ?case by (simp add: gauss_seidel_pressure_def same_shape_def)
next
  case (Suc n)
  let ?q = "gauss_seidel_pressure n p dvg"
  have q: "cells ?q = (\<lambda>_. 0)" "same_shape ?q p" using Suc by simp_all
  have pos': "0 < rows ?q" "0 < cols ?q" using q(2) pos by (simp_all add: same_shape_def)
  have d': "index dvg i j = 0" if "interior ?q i j" for i j
    using that q(2) d by (simp add: interior_def same_shape_def)
  have "gauss_seidel_pressure (Suc n) p dvg = sweep dvg ?q"
    by (simp add: gauss_seidel_pressure_def)
  then show ?case
    using sweep_zero [OF q(1) pos' d'] q(2) by (simp add: same_shape_def)
qed

lemma gradient_and_subtract_zero:
  assumes "cells p = (\<lambda>_. 0)"
  shows "gradient_and_subtract v p = update_boundary negate_normal v"
proof -
  have "for_cells (rows v) (cols v) (subtract_cell p) v = v"
  proof (rule for_cells_inv [where Q = "\<lambda>s. s = v"])
    show "subtract_cell p i j s = v" if "s = v" for i j s
    proof -
      have "Vector 0 0 = 0" by (simp add: zero_Vector_def)
      then show ?thesis
        using that assms by (simp add: subtract_cell_def set_index_same index_def)
    qed
  qed simp
  then show ?thesis by (simp add: gradient_and_subtract_def)
qed

lemma zero_stencil_interior: "zero_stencil v \<Longrightarrow> zero_interior v"
  by (simp add: zero_stencil_def zero_interior_def)

lemma advect_zero_stencil:
  assumes src: "\<And>i j. interior dest i j \<Longrightarrow> index src i j = 0"
    and vel: "\<And>i j. interior dest i j \<Longrightarrow> index vel i j = 0"
    and "0 \<le> margin" and "policy dest \<noteq> DONTCARE" and pos: "0 < rows dest" "0 < cols dest"
  shows "zero_stencil (semilagrangian_advect margin negate_normal dest src vel dt)
    \<and> same_shape (semilagrangian_advect margin negate_normal dest src vel dt) dest"
proof -
  let ?w = "for_cells (rows dest) (cols dest)
          (\<lambda>i j d. set_index d i j (advect_cell margin (rows dest) (cols dest) src vel dt i j)) dest"
  have shape: "rows ?w = rows dest" "cols ?w = cols dest" "policy ?w = policy dest"
    using for_cells_write_shape [of "rows dest" "cols dest" _ dest] by simp_all
  have "index ?w i j = 0" if "interior dest i j" for i j
    using that src [OF that] vel [OF that] assms(3)
    by (simp add: index_def for_cells_write interior_def advect_cell_def backtrace_zero index_def
        bilinear_at_cell [unfolded index_def])
  then have zi: "zero_interior ?w"
    using shape by (simp add: zero_interior_def interior_def)
  have "zero_stencil (update_boundary negate_normal ?w)
      \<and> same_shape (update_boundary negate_normal ?w) ?w"
    by (rule update_boundary_zero_stencil [OF zi])
       (use shape assms in \<open>simp_all add: ghost_value_zero_vector\<close>)
  then show ?thesis
    using shape by (simp add: semilagrangian_advect_def same_shape_def)
qed

lemma abs_max_zero:
  assumes "\<And>i j. 0 \<le> i \<Longrightarrow> i < N_ROWS \<Longrightarrow> 0 \<le> j \<Longrightarrow> j < N_COLS \<Longrightarrow> index d i j = 0"
  shows "abs_max d = 0"
proof -
  have "(\<lambda>(i, j). \<bar>index d i j\<bar>) ` interior_cells = {0}"
    using assms interior_cells_nonempty by (auto simp add: interior_cells_def image_def)
  then show ?thesis by (simp add: abs_max_def)
qed

text \<open>
  C9. One tick with the operators above, from a state whose velocity is zero on every
  interior cell, with pin 0 reading \<open>HIGH\<close> (input not asserted): the tick returns; after
  it the velocity is zero on every interior cell, the divergence computed from it is
  zero on every interior cell, so that the drift diagnostic of the tick is 0, and every
  interior cell of each of the three colour fields holds the value it held before. The
  equalities are exact on the reals, hence within any tolerance; they hold for any
  colour fields of the grid's dimensions, uniform ones among them.
\<close>

theorem quiescent_tick:
  assumes vz: "\<forall>i j. 0 \<le> i \<and> i < N_ROWS \<and> 0 \<le> j \<and> j < N_COLS
        \<longrightarrow> index (velocity_field s) i j = 0"
    and R: "heap (colors s) (red_field (colors s)) = Some R"
    and G: "heap (colors s) (green_field (colors s)) = Some G"
    and B: "heap (colors s) (blue_field (colors s)) = Some B"
    and dims: "rows R = N_ROWS" "cols R = N_COLS" "rows G = N_ROWS" "cols G = N_COLS"
    and d: "distinct [red_field (colors s), green_field (colors s), blue_field (colors s)]"
    and fresh: "addr_temp_color inp \<notin> dom (heap (colors s))"
    and pin: "pin0 inp = HIGH"
    and margin: "0 \<le> margin"
  shows "\<exists>s' R' G' B'. tick (stable_fluids margin sweeps) inp s = Some s'
     \<and> channels (colors s') = (Some R', Some G', Some B')
     \<and> (\<forall>i j. 0 \<le> i \<and> i < N_ROWS \<and> 0 \<le> j \<and> j < N_COLS \<longrightarrow>
           index (velocity_field s') i j = 0
         \<and> index (divergence (new_Field N_ROWS N_COLS DONTCARE (junk_new_divergence inp))
              (velocity_field s')) i j = 0
         \<and> index R' i j = index R i j \<and> index G' i j = index G i j
         \<and> index B' i j = index B i j)
     \<and> current_abs_pct_density s' = 0"
proof -
  define tv where "tv = new_Field N_ROWS N_COLS NEGATIVE (junk_temp_vector inp)"
  define v1 where "v1 = semilagrangian_advect margin negate_normal tv (velocity_field s)
      (velocity_field s) DT"
  define dvg where "dvg = divergence (new_Field N_ROWS N_COLS DONTCARE (junk_divergence inp)) v1"
  define pf where "pf = gauss_seidel_pressure sweeps
      (new_Field N_ROWS N_COLS CLONE (junk_pressure inp)) dvg"
  define v3 where "v3 = gradient_and_subtract v1 pf"
  define tc where "tc = new_Field N_ROWS N_COLS CLONE (junk_temp_color inp)"
  define nd where "nd = divergence (new_Field N_ROWS N_COLS DONTCARE (junk_new_divergence inp)) v3"
  define adv where "adv = semilagrangian_advect margin negate_scalar"
  have tvs: "rows tv = N_ROWS" "cols tv = N_COLS" "policy tv = NEGATIVE"
    by (simp_all add: tv_def new_Field_def)
  have pos: "0 < N_ROWS" "0 < N_COLS" by (simp_all add: N_ROWS_def N_COLS_def)
  have z0: "index (velocity_field s) i j = 0" if "interior tv i j" for i j
    using that vz tvs by (simp add: interior_def)
  have v1: "zero_stencil v1" "same_shape v1 tv"
    using advect_zero_stencil [of tv "velocity_field s" "velocity_field s" margin DT] z0 margin
      tvs pos
    by (simp_all add: v1_def)
  have v1s: "rows v1 = N_ROWS" "cols v1 = N_COLS" "policy v1 = NEGATIVE"
    using v1(2) tvs by (simp_all add: same_shape_def)
  have dz: "index dvg i j = 0"
    if "interior (new_Field N_ROWS N_COLS CLONE (junk_pressure inp)) i j" for i j
    unfolding dvg_def
    by (rule divergence_zero [OF v1(1)]) (use that v1s in \<open>simp_all add: new_Field_def interior_def\<close>)
  have pf: "cells pf = (\<lambda>_. 0)"
    unfolding pf_def
    using gauss_seidel_zero [of "new_Field N_ROWS N_COLS CLONE (junk_pressure inp)" dvg sweeps]
      dz pos
    by (simp add: new_Field_def)
  have v3eq: "v3 = update_boundary negate_normal v1"
    by (simp add: v3_def gradient_and_subtract_zero [OF pf])
  have v3: "zero_stencil v3" "same_shape v3 v1"
    using update_boundary_zero_stencil [of v1 negate_normal] zero_stencil_interior [OF v1(1)]
      v1s pos
    by (simp_all add: v3eq ghost_value_zero_vector)
  have v3s: "rows v3 = N_ROWS" "cols v3 = N_COLS"
    using v3(2) v1s by (simp_all add: same_shape_def)
  have v3z: "index v3 i j = 0" if "0 \<le> i" "i < N_ROWS" "0 \<le> j" "j < N_COLS" for i j
    using v3(1) v3s that by (simp add: zero_stencil_def interior_def)
  have ndz: "index nd i j = 0" if "0 \<le> i" "i < N_ROWS" "0 \<le> j" "j < N_COLS" for i j
    unfolding nd_def
    by (rule divergence_zero [OF v3(1)]) (use that v3s in \<open>simp_all add: new_Field_def interior_def\<close>)
  have cur: "100 * max_abs_divergence nd * DT = 0"
    using abs_max_zero [of nd] ndz by (simp add: max_abs_divergence_eq)
  let ?c' = "\<lparr>red_field = addr_temp_color inp, green_field = red_field (colors s),
       blue_field = green_field (colors s),
       heap = (heap (colors s))(addr_temp_color inp \<mapsto> adv tc R v3 DT,
                red_field (colors s) \<mapsto> adv R G v3 DT,
                green_field (colors s) \<mapsto> adv G B v3 DT, blue_field (colors s) := None)\<rparr>"
  have c: "commit adv (addr_temp_color inp) tc v3 (colors s) = Some ?c'"
    by (rule commit_result [OF R G B d fresh])
  have na: "addr_temp_color inp \<noteq> red_field (colors s)"
    "addr_temp_color inp \<noteq> green_field (colors s)" "addr_temp_color inp \<noteq> blue_field (colors s)"
    using R G B fresh by auto
  have ch: "channels ?c' = (Some (adv tc R v3 DT), Some (adv R G v3 DT), Some (adv G B v3 DT))"
    using d na by (simp add: channels_def)
  have keep: "index (adv dest src v3 DT) i j = index src i j"
    if "rows dest = N_ROWS" "cols dest = N_COLS" "0 \<le> i" "i < N_ROWS" "0 \<le> j" "j < N_COLS"
    for dest src :: "real Field" and i j
    unfolding adv_def
    by (rule advect_zero_cell) (use that margin v3z in \<open>simp_all add: interior_def\<close>)
  have tcs: "rows tc = N_ROWS" "cols tc = N_COLS"
    by (simp_all add: tc_def new_Field_def)
  define s' where "s' = \<lparr>velocity_field = v3, colors = ?c',
      current_abs_pct_density = 100 * max_abs_divergence nd * DT,
      max_abs_pct_density = (if 100 * max_abs_divergence nd * DT > max_abs_pct_density s
        then 100 * max_abs_divergence nd * DT else max_abs_pct_density s)\<rparr>"
  have t: "tick (stable_fluids margin sweeps) inp s = Some s'"
    using c pin
    by (simp add: tick_def stable_fluids_def Let_def diagnostic_def apply_force_def
        tv_def [symmetric] v1_def [symmetric] dvg_def [symmetric] pf_def [symmetric]
        v3_def [symmetric] tc_def [symmetric] nd_def [symmetric] adv_def [symmetric] s'_def)
  have "channels (colors s') = (Some (adv tc R v3 DT), Some (adv R G v3 DT), Some (adv G B v3 DT))"
    using ch by (simp add: s'_def)
  moreover have "\<forall>i j. 0 \<le> i \<and> i < N_ROWS \<and> 0 \<le> j \<and> j < N_COLS \<longrightarrow>
           index (velocity_field s') i j = 0
         \<and> index (divergence (new_Field N_ROWS N_COLS DONTCARE (junk_new_divergence inp))
              (velocity_field s')) i j = 0
         \<and> index (adv tc R v3 DT) i j = index R i j \<and> index (adv R G v3 DT) i j = index G i j
         \<and> index (adv G B v3 DT) i j = index B i j"
    using v3z ndz keep tcs dims by (simp add: s'_def nd_def)
  moreover have "current_abs_pct_density s' = 0"
    using cur by (simp add: s'_def)
  ultimately show ?thesis
    using t by blast
qed

theorem quiescent_tick_witness:
  "\<exists>s' R' G' B'. tick (stable_fluids (1 / 2) 20) (example_input 3 2) example_state = Some s'
     \<and> channels (colors s') = (Some R', Some G', Some B')
     \<and> index (velocity_field s') 3 4 = 0
     \<and> index R' 3 4 = 1 \<and> index G' 3 4 = 2 \<and> index B' 3 4 = 3
     \<and> current_abs_pct_density s' = 0"
proof -
  have vz: "\<forall>i j. 0 \<le> i \<and> i < N_ROWS \<and> 0 \<le> j \<and> j < N_COLS
        \<longrightarrow> index (velocity_field example_state) i j = 0"
    by (simp add: example_state_def const_field_def index_def zero_Vector_def)
  have R: "heap (colors example_state) (red_field (colors example_state))
      = Some (const_field 80 60 CLONE 1)"
    and G: "heap (colors example_state) (green_field (colors example_state))
      = Some (const_field 80 60 CLONE 2)"
    and B: "heap (colors example_state) (blue_field (colors example_state))
      = Some (const_field 80 60 CLONE 3)"
    by (simp_all add: example_state_def example_colors_def)
  have dims: "rows (const_field 80 60 CLONE (1::real)) = N_ROWS"
    "cols (const_field 80 60 CLONE (1::real)) = N_COLS"
    "rows (const_field 80 60 CLONE (2::real)) = N_ROWS"
    "cols (const_field 80 60 CLONE (2::real)) = N_COLS"
    by (simp_all add: const_field_def N_ROWS_def N_COLS_def)
  have d: "distinct [red_field (colors example_state), green_field (colors example_state),
      blue_field (colors example_state)]"
    by (simp add: example_state_def example_colors_def)
  have fresh: "addr_temp_color (example_input 3 2) \<notin> dom (heap (colors example_state))"
    by (simp add: example_state_def example_colors_def example_input_def)
  have pin: "pin0 (example_input 3 2) = HIGH"
    by (simp add: example_input_def)
  have margin: "(0::real) \<le> 1 / 2" by simp
  from quiescent_tick [OF vz R G B dims d fresh pin margin, of 20]
  obtain s' R' G' B' where t: "tick (stable_fluids (1 / 2) 20) (example_input 3 2) example_state = Some s'"
    and ch: "channels (colors s') = (Some R', Some G', Some B')"
    and cells: "\<forall>i j. 0 \<le> i \<and> i < N_ROWS \<and> 0 \<le> j \<and> j < N_COLS \<longrightarrow>
           index (velocity_field s') i j = 0
         \<and> index (divergence (new_Field N_ROWS N_COLS DONTCARE
               (junk_new_divergence (example_input 3 2))) (velocity_field s')) i j = 0
         \<and> index R' i j = index (const_field 80 60 CLONE 1) i j
         \<and> index G' i j = index (const_field 80 60 CLONE 2) i j
         \<and> index B' i j = index (const_field 80 60 CLONE 3) i j"
    and cur: "current_abs_pct_density s' = 0"
    by blast
  have "index (velocity_field s') 3 4 = 0 \<and> index R' 3 4 = 1 \<and> index G' 3 4 = 2
      \<and> index B' 3 4 = 3"
    using cells [rule_format, of 3 4]
    by (simp add: N_ROWS_def N_COLS_def const_field_def index_def)
  then show ?thesis
    using t ch cur by blast
qed

section \<open>Properties of the hand-off\<close>

lemma all_Channel: "(\<forall>c. P c) = (P Red \<and> P Green \<and> P Blue)"
  by (metis Channel.exhaust)



lemma one_frame_Nil: "one_frame []"
  unfolding one_frame_def by (rule exI [of _ 1]) simp

lemma invariant_launch: "distinct [r, g, b] \<Longrightarrow> invariant (launch r g b)"
  using one_frame_Nil
  by (auto simp add: invariant_def launch_def expected_def fields_def all_Channel pass_log_def)


lemma expected_same:
  "tick_no s' = tick_no s \<Longrightarrow> progress (sim_at s') = progress (sim_at s) \<Longrightarrow>
   expected s' c = expected s c"
  by (simp add: expected_def)

lemma pass_log_same:
  assumes "\<And>c. expected s' c = expected s c"
    and "draw_at s' = draw_at s" "drawn s' = drawn s" "cell s' = cell s"
  shows "pass_log s' = pass_log s"
  by (simp add: pass_log_def assms)

lemma pass_log_idle:
  assumes "\<not> in_pass (draw_at s)" and "draw_at s' = draw_at s" "drawn s' = drawn s"
  shows "pass_log s' = pass_log s"
  using assms by (cases "draw_at s") (simp_all add: pass_log_def)


lemma sim_step_physics:
  assumes "invariant s" "sim_at s = S_physics" "sim_step a s = Next s'"
  shows "invariant s'"
proof -
  have s': "s' = s\<lparr>sim_at := S_take_mutex\<rparr>" using assms by (simp add: sim_step_def)
  have e: "expected s' c = expected s c" for c
    using assms(2) by (simp add: s' expected_def)
  have pl: "pass_log s' = pass_log s"
    by (rule pass_log_same [OF e]) (simp_all add: s')
  show ?thesis
    using assms(1,2) unfolding invariant_def e pl
    by (simp add: s')
qed

lemma sim_step_take_mutex:
  assumes "invariant s" "sim_at s = S_take_mutex" "sim_step a s = Next s'"
  shows "invariant s'"
proof -
  have free: "color_mutex s = None" using assms by (simp add: sim_step_def split: if_splits)
  have s': "s' = s\<lparr>sim_at := S_new, color_mutex := Some SimTask\<rparr>"
    using assms free by (simp add: sim_step_def)
  have e: "expected s' c = expected s c" for c
    using assms(2) by (simp add: s' expected_def)
  have pl: "pass_log s' = pass_log s"
    by (rule pass_log_same [OF e]) (simp_all add: s')
  have "\<not> in_pass (draw_at s)"
    using assms(1,2) free by (auto simp add: invariant_def)
  then show ?thesis
    using assms(1,2) unfolding invariant_def e pl
    by (simp add: s')
qed

lemma sim_step_new:
  assumes "invariant s" "sim_at s = S_new" "sim_step a s = Next s'"
  shows "invariant s'"
proof -
  have fresh: "heap (shared s) a = None" using assms by (simp add: sim_step_def split: if_splits)
  have s': "s' = s\<lparr>sim_at := S_advect Red, temp_color_field := a,
      shared := write_buffer a Dirty (shared s)\<rparr>"
    using assms fresh by (simp add: sim_step_def)
  have e: "expected s' c = expected s c" for c
    using assms(2) by (simp add: s' expected_def)
  have pl: "pass_log s' = pass_log s"
    by (rule pass_log_same [OF e]) (simp_all add: s')
  have live: "heap (shared s) (field_of c (shared s)) \<noteq> None" for c
    using assms(1) by (simp add: invariant_def)
  have na: "a \<noteq> red_field (shared s)" "a \<noteq> green_field (shared s)" "a \<noteq> blue_field (shared s)"
    using live [of Red] live [of Green] live [of Blue] fresh by auto
  have f: "field_of c (write_buffer a Dirty (shared s)) = field_of c (shared s)" for c
    by (cases c) (simp_all add: write_buffer_def)
  have h: "heap (write_buffer a Dirty (shared s)) (field_of c (shared s))
      = heap (shared s) (field_of c (shared s))" for c
    using na by (cases c) (simp_all add: write_buffer_def)
  have d: "dom (heap (write_buffer a Dirty (shared s))) = insert a (dom (heap (shared s)))"
    by (simp add: write_buffer_def)
  show ?thesis
    using assms(1,2) na unfolding invariant_def e pl
    by (simp add: s' f h d fields_def) (simp add: write_buffer_def)
qed


lemma fields_live:
  assumes "invariant s"
  shows "heap (shared s) (red_field (shared s)) = Some (expected s Red)"
    "heap (shared s) (green_field (shared s)) = Some (expected s Green)"
    "heap (shared s) (blue_field (shared s)) = Some (expected s Blue)"
  using assms by (simp_all add: invariant_def all_Channel)

lemma write_spare:
  assumes "a \<notin> fields c"
  shows "field_of ch (write_buffer a b c) = field_of ch c"
    and "heap (write_buffer a b c) (field_of ch c) = heap c (field_of ch c)"
    and "fields (write_buffer a b c) = fields c"
    and "red_field (write_buffer a b c) = red_field c"
    and "green_field (write_buffer a b c) = green_field c"
    and "blue_field (write_buffer a b c) = blue_field c"
    and "heap (write_buffer a b c) a = Some b"
    and "dom (heap (write_buffer a b c)) = insert a (dom (heap c))"
  using assms by (cases ch; simp add: write_buffer_def fields_def)+

lemma sim_step_advect:
  assumes "invariant s" "sim_at s = S_advect c" "sim_step a s = Next s'"
  shows "invariant s'"
proof -
  have sp: "temp_color_field s \<notin> fields (shared s)"
    "dom (heap (shared s)) = insert (temp_color_field s) (fields (shared s))"
    using assms(1,2) by (simp_all add: invariant_def)
  have s': "s' = s\<lparr>sim_at := S_advect_end c,
      shared := write_buffer (temp_color_field s) Dirty (shared s)\<rparr>"
    using assms by (simp add: sim_step_def split: if_splits)
  have e: "expected s' ch = expected s ch" for ch
    using assms(2) by (simp add: s' expected_def)
  have pl: "pass_log s' = pass_log s"
    by (rule pass_log_same [OF e]) (simp_all add: s')
  show ?thesis
    using assms(1,2) sp unfolding invariant_def e pl
    by (simp add: s' write_spare [OF sp(1)])
qed

lemma sim_step_advect_fault:
  assumes "invariant s" "sim_at s = S_advect c"
  shows "sim_step a s \<noteq> Fault"
proof -
  have sp: "temp_color_field s \<notin> fields (shared s)"
    "dom (heap (shared s)) = insert (temp_color_field s) (fields (shared s))"
    using assms(1,2) by (simp_all add: invariant_def)
  have "heap (shared s) (temp_color_field s) \<noteq> None"
    using sp(2) by (metis domIff insertI1)
  moreover have "heap (shared s) (field_of c (shared s)) \<noteq> None"
    using assms(1) by (simp add: invariant_def)
  moreover have "temp_color_field s \<noteq> field_of c (shared s)"
    using sp(1) by (cases c) (auto simp add: fields_def)
  ultimately show ?thesis
    using assms(2) by (simp add: sim_step_def)
qed

lemma sim_step_advect_end:
  assumes "invariant s" "sim_at s = S_advect_end c" "sim_step a s = Next s'"
  shows "invariant s'"
proof -
  have sp: "temp_color_field s \<notin> fields (shared s)"
    "dom (heap (shared s)) = insert (temp_color_field s) (fields (shared s))"
    using assms(1,2) by (simp_all add: invariant_def)
  have src: "heap (shared s) (field_of c (shared s)) = Some (Frame (tick_no s - 1) c)"
    using assms(1,2) by (simp add: invariant_def expected_def)
  have s': "s' = s\<lparr>sim_at := S_temp c,
      shared := write_buffer (temp_color_field s) (Frame (tick_no s) c) (shared s)\<rparr>"
    using assms src by (simp add: sim_step_def)
  have e: "expected s' ch = expected s ch" for ch
    using assms(2) by (simp add: s' expected_def)
  have pl: "pass_log s' = pass_log s"
    by (rule pass_log_same [OF e]) (simp_all add: s')
  show ?thesis
    using assms(1,2) sp unfolding invariant_def e pl
    by (simp add: s' write_spare [OF sp(1)])
qed

lemma sim_step_advect_end_fault:
  assumes "invariant s" "sim_at s = S_advect_end c"
  shows "sim_step a s \<noteq> Fault"
proof -
  have "heap (shared s) (field_of c (shared s)) = Some (expected s c)"
    using assms(1) by (simp add: invariant_def)
  then show ?thesis using assms(2) by (simp add: sim_step_def)
qed

lemma sim_step_temp:
  assumes "invariant s" "sim_at s = S_temp c" "sim_step a s = Next s'"
  shows "invariant s'"
proof -
  have s': "s' = s\<lparr>sim_at := S_field c, temp := field_of c (shared s)\<rparr>"
    using assms by (simp add: sim_step_def)
  have e: "expected s' ch = expected s ch" for ch
    using assms(2) by (simp add: s' expected_def)
  have pl: "pass_log s' = pass_log s"
    by (rule pass_log_same [OF e]) (simp_all add: s')
  show ?thesis
    using assms(1,2) unfolding invariant_def e pl
    by (simp add: s')
qed


lemma sim_step_field:
  assumes "invariant s" "sim_at s = S_field c" "sim_step a s = Next s'"
  shows "invariant s'"
proof -
  have sp: "temp_color_field s \<notin> fields (shared s)"
    "heap (shared s) (temp_color_field s) = Some (Frame (tick_no s) c)"
    "temp s = field_of c (shared s)"
    "dom (heap (shared s)) = insert (temp_color_field s) (fields (shared s))"
    using assms(1,2) by (simp_all add: invariant_def)
  have s': "s' = s\<lparr>sim_at := S_spare c,
      shared := set_field_of c (temp_color_field s) (shared s)\<rparr>"
    using assms by (simp add: sim_step_def)
  have d: "distinct [red_field (shared s), green_field (shared s), blue_field (shared s)]"
    using assms(1) by (simp add: invariant_def)
  note live = fields_live [OF assms(1)]
  have ncrit: "\<not> in_pass (draw_at s)" "color_mutex s = Some SimTask"
    using assms(1,2) by (auto simp add: invariant_def)
  have nr: "\<not> reading (draw_at s)" "\<And>ch. \<not> has_read (draw_at s) ch"
    using ncrit(1) by (cases "draw_at s"; simp)+
  have sem: "color_semaphore s \<le> 1" "1 \<le> tick_no s"
    "color_semaphore s = 1 \<or> draw_at s \<noteq> D_take_semaphore \<longrightarrow> 2 \<le> tick_no s"
    using assms(1,2) by (simp_all add: invariant_def)
  have pl: "pass_log s' = pass_log s"
    by (rule pass_log_idle [OF ncrit(1)]) (simp_all add: s')
  have lg: "pass_log s"
    using assms(1) by (simp add: invariant_def)
  show ?thesis
  proof (cases c)
    case Red
    show ?thesis
      using sp d live ncrit nr sem lg assms(2) Red
      unfolding invariant_def pl
      by (auto simp add: s' all_Channel expected_def fields_def)
  next
    case Green
    show ?thesis
      using sp d live ncrit nr sem lg assms(2) Green
      unfolding invariant_def pl
      by (auto simp add: s' all_Channel expected_def fields_def)
  next
    case Blue
    show ?thesis
      using sp d live ncrit nr sem lg assms(2) Blue
      unfolding invariant_def pl
      by (auto simp add: s' all_Channel expected_def fields_def)
  qed
qed


lemma sim_step_spare:
  assumes "invariant s" "sim_at s = S_spare c" "sim_step a s = Next s'"
  shows "invariant s'"
proof -
  have s': "s' = s\<lparr>sim_at := after_swap c, temp_color_field := temp s\<rparr>"
    using assms by (simp add: sim_step_def)
  have e: "expected s' ch = expected s ch" for ch
    using assms(2) by (cases c) (simp_all add: s' expected_def)
  have pl: "pass_log s' = pass_log s"
    by (rule pass_log_same [OF e]) (simp_all add: s')
  show ?thesis
    using assms(1,2) unfolding invariant_def e pl
    by (cases c) (simp_all add: s')
qed

lemma sim_step_delete:
  assumes "invariant s" "sim_at s = S_delete" "sim_step a s = Next s'"
  shows "invariant s'"
proof -
  have sp: "temp_color_field s \<notin> fields (shared s)"
    "dom (heap (shared s)) = insert (temp_color_field s) (fields (shared s))"
    using assms(1,2) by (simp_all add: invariant_def)
  have s': "s' = s\<lparr>sim_at := S_give_mutex,
      shared := (shared s)\<lparr>heap := (heap (shared s))(temp_color_field s := None)\<rparr>\<rparr>"
    using assms by (simp add: sim_step_def split: if_splits)
  have e: "expected s' ch = expected s ch" for ch
    using assms(2) by (simp add: s' expected_def)
  have pl: "pass_log s' = pass_log s"
    by (rule pass_log_same [OF e]) (simp_all add: s')
  have f: "field_of ch ((shared s)\<lparr>heap := (heap (shared s))(temp_color_field s := None)\<rparr>)
      = field_of ch (shared s)" for ch
    by (cases ch) simp_all
  have ne: "temp_color_field s \<noteq> field_of ch (shared s)"
    "field_of ch (shared s) \<noteq> temp_color_field s" for ch
    using sp(1) by (cases ch; auto simp add: fields_def)+
  have dm: "dom ((heap (shared s))(temp_color_field s := None)) = fields (shared s)"
    using sp by auto
  show ?thesis
    using assms(1,2) sp ne unfolding invariant_def e pl
    by (simp add: s' f dm fields_def)
qed

lemma sim_step_delete_fault:
  assumes "invariant s" "sim_at s = S_delete"
  shows "sim_step a s \<noteq> Fault"
proof -
  have "dom (heap (shared s)) = insert (temp_color_field s) (fields (shared s))"
    using assms(1,2) by (simp add: invariant_def)
  then have "heap (shared s) (temp_color_field s) \<noteq> None"
    by (metis domIff insertI1)
  then show ?thesis using assms(2) by (simp add: sim_step_def)
qed

lemma sim_step_give_mutex:
  assumes "invariant s" "sim_at s = S_give_mutex" "sim_step a s = Next s'"
  shows "invariant s'"
proof -
  have s': "s' = s\<lparr>sim_at := S_give_semaphore, color_mutex := None\<rparr>"
    using assms by (simp add: sim_step_def)
  have e: "expected s' ch = expected s ch" for ch
    using assms(2) by (simp add: s' expected_def)
  have pl: "pass_log s' = pass_log s"
    by (rule pass_log_same [OF e]) (simp_all add: s')
  show ?thesis
    using assms(1,2) unfolding invariant_def e pl
    by (simp add: s')
qed

lemma sim_step_give_semaphore:
  assumes "invariant s" "sim_at s = S_give_semaphore" "sim_step a s = Next s'"
  shows "invariant s'"
proof -
  have s': "s' = s\<lparr>sim_at := S_diagnostic, color_semaphore := 1, backlog := backlog s + 1\<rparr>"
    using assms by (simp add: sim_step_def)
  have e: "expected s' ch = expected s ch" for ch
    using assms(2) by (simp add: s' expected_def)
  have pl: "pass_log s' = pass_log s"
    by (rule pass_log_same [OF e]) (simp_all add: s')
  show ?thesis
    using assms(1,2) unfolding invariant_def e pl
    by (simp add: s')
qed

lemma sim_step_diagnostic:
  assumes "invariant s" "sim_at s = S_diagnostic" "sim_step a s = Next s'"
  shows "invariant s'"
proof -
  have s': "s' = s\<lparr>sim_at := S_physics, tick_no := tick_no s + 1\<rparr>"
    using assms by (simp add: sim_step_def)
  have e: "expected s' ch = expected s ch" for ch
    using assms(2) by (cases ch) (simp_all add: s' expected_def)
  have pl: "pass_log s' = pass_log s"
    by (rule pass_log_same [OF e]) (simp_all add: s')
  show ?thesis
    using assms(1,2) unfolding invariant_def e pl
    by (simp add: s')
qed

lemma sim_step_invariant:
  assumes "invariant s" "sim_step a s = Next s'"
  shows "invariant s'"
  using assms
  by (cases "sim_at s")
     (blast intro: sim_step_physics sim_step_take_mutex sim_step_new sim_step_advect
        sim_step_advect_end sim_step_temp sim_step_field sim_step_spare sim_step_delete
        sim_step_give_mutex sim_step_give_semaphore sim_step_diagnostic)+

lemma sim_step_no_fault:
  assumes "invariant s"
  shows "sim_step a s \<noteq> Fault"
proof (cases "sim_at s")
  case (S_advect c)
  then show ?thesis by (rule sim_step_advect_fault [OF assms])
next
  case (S_advect_end c)
  then show ?thesis by (rule sim_step_advect_end_fault [OF assms])
next
  case S_delete
  then show ?thesis by (rule sim_step_delete_fault [OF assms])
qed (simp_all add: sim_step_def)


lemma spare_ok_same:
  "shared s' = shared s \<Longrightarrow> temp s' = temp s \<Longrightarrow> temp_color_field s' = temp_color_field s
   \<Longrightarrow> tick_no s' = tick_no s \<Longrightarrow> spare_ok pc s' = spare_ok pc s"
  by (cases pc) simp_all

lemma reading_in_pass: "reading pc \<Longrightarrow> in_pass pc"
  by (cases pc) simp_all

lemma quiet_progress: "\<not> critical pc \<Longrightarrow> progress pc = 0 \<and> pc \<noteq> S_diagnostic \<or> progress pc = 3"
  by (cases pc) simp_all

lemma pass_frame:
  assumes "invariant s" "in_pass (draw_at s)"
  shows "\<exists>t\<ge>1. \<forall>c. expected s c = Frame t c"
proof -
  have nc: "\<not> critical (sim_at s)"
    using assms by (auto simp add: invariant_def)
  have t1: "1 \<le> tick_no s" and t2: "2 \<le> tick_no s \<or> sim_at s = S_diagnostic"
    using assms by (cases "draw_at s"; auto simp add: invariant_def)+
  from quiet_progress [OF nc] show ?thesis
  proof
    assume q: "progress (sim_at s) = 0 \<and> sim_at s \<noteq> S_diagnostic"
    then have e: "expected s c = Frame (tick_no s - 1) c" for c
      by (simp add: expected_def)
    have "1 \<le> tick_no s - 1" using t2 q by simp
    then show ?thesis using e by blast
  next
    assume q: "progress (sim_at s) = 3"
    have e: "expected s c = Frame (tick_no s) c" for c
      using q by (cases c) (simp_all add: expected_def)
    show ?thesis using e t1 by blast
  qed
qed

lemma covered_after_read:
  "covered (after_read c) n k c' = (covered (D_read c) n k c' \<or> (k = n \<and> c' = c))"
  by (cases c; cases c') auto

lemma after_read_reading: "reading (after_read c)" "after_read c \<noteq> D_give_mutex"
  by (cases c; simp)+

lemma draw_step_take_semaphore:
  assumes "invariant s" "draw_at s = D_take_semaphore" "draw_step s = Next s'"
  shows "invariant s'"
proof -
  have given: "color_semaphore s \<noteq> 0" using assms by (simp add: draw_step_def split: if_splits)
  have s': "s' = s\<lparr>draw_at := D_take_mutex, color_semaphore := 0, backlog := 0\<rparr>"
    using assms given by (simp add: draw_step_def)
  have e: "expected s' ch = expected s ch" for ch
    by (simp add: s' expected_def)
  have sp: "spare_ok pc s' = spare_ok pc s" for pc
    by (rule spare_ok_same) (simp_all add: s')
  have pl: "pass_log s' = pass_log s"
    using assms(2) by (simp add: pass_log_def s')
  have one: "color_semaphore s = 1"
    using assms(1) given by (simp add: invariant_def)
  show ?thesis
    using assms(1,2) one unfolding invariant_def e sp pl
    by (simp add: s')
qed

lemma draw_step_take_mutex:
  assumes "invariant s" "draw_at s = D_take_mutex" "draw_step s = Next s'"
  shows "invariant s'"
proof -
  have free: "color_mutex s = None" using assms by (simp add: draw_step_def split: if_splits)
  have s': "s' = s\<lparr>draw_at := D_call, color_mutex := Some DrawTask\<rparr>"
    using assms free by (simp add: draw_step_def)
  have e: "expected s' ch = expected s ch" for ch
    by (simp add: s' expected_def)
  have sp: "spare_ok pc s' = spare_ok pc s" for pc
    by (rule spare_ok_same) (simp_all add: s')
  have pl: "pass_log s' = pass_log s"
    using assms(2) by (simp add: pass_log_def s')
  have "\<not> critical (sim_at s)"
    using assms(1) free by (auto simp add: invariant_def)
  then show ?thesis
    using assms(1,2) unfolding invariant_def e sp pl
    by (simp add: s')
qed

lemma draw_step_call:
  assumes "invariant s" "draw_at s = D_call" "draw_step s = Next s'"
  shows "invariant s'"
proof -
  have s': "s' = s\<lparr>draw_at := D_read Red, args := (\<lambda>c. field_of c (shared s)), cell := 0,
      drawn := []\<rparr>"
    using assms by (simp add: draw_step_def)
  have e: "expected s' ch = expected s ch" for ch
    by (simp add: s' expected_def)
  have sp: "spare_ok pc s' = spare_ok pc s" for pc
    by (rule spare_ok_same) (simp_all add: s')
  have pl: "pass_log s' = True"
    by (simp add: pass_log_def s' N_CELLS_def)
  show ?thesis
    using assms(1,2) unfolding invariant_def e sp pl
    by (simp add: s')
qed

lemma draw_step_read:
  assumes "invariant s" "draw_at s = D_read c" "draw_step s = Next s'"
  shows "invariant s'"
proof -
  have a: "args s c = field_of c (shared s)"
    using assms(1,2) by (simp add: invariant_def)
  have b: "heap (shared s) (args s c) = Some (expected s c)"
    using assms(1) a by (simp add: invariant_def)
  have s': "s' = s\<lparr>draw_at := after_read c, seen := (seen s)(c \<mapsto> expected s c),
      drawn := drawn s @ [(cell s, c, expected s c)]\<rparr>"
    using assms b by (simp add: draw_step_def)
  have e: "expected s' ch = expected s ch" for ch
    by (simp add: s' expected_def)
  have sp: "spare_ok pc s' = spare_ok pc s" for pc
    by (rule spare_ok_same) (simp_all add: s')
  have lg: "\<forall>(k, c, x)\<in>set (drawn s). x = expected s c"
    "\<forall>k c'. covered (D_read c) (cell s) k c' \<longrightarrow> (k, c', expected s c') \<in> set (drawn s)"
    "cell s < N_CELLS"
    using assms(1,2) by (simp_all add: invariant_def pass_log_def)
  have pl: "pass_log s' = True"
    unfolding pass_log_def e
    using lg by (simp add: s' after_read_reading covered_after_read)
  show ?thesis
    using assms(1,2) unfolding invariant_def e sp pl
    by (cases c) (simp_all add: s' all_Channel)
qed

lemma draw_step_read_fault:
  assumes "invariant s" "draw_at s = D_read c"
  shows "draw_step s \<noteq> Fault"
proof -
  have a: "args s c = field_of c (shared s)"
    using assms(1,2) by (simp add: invariant_def)
  have b: "heap (shared s) (args s c) = Some (expected s c)"
    using assms(1) a by (simp add: invariant_def)
  show ?thesis using assms(2) b by (simp add: draw_step_def)
qed

lemma draw_step_next:
  assumes "invariant s" "draw_at s = D_next" "draw_step s = Next s'"
  shows "invariant s'"
proof (cases "cell s + 1 < N_CELLS")
  case True
  have s': "s' = s\<lparr>draw_at := D_read Red, cell := cell s + 1, seen := (\<lambda>_. None)\<rparr>"
    using assms True by (simp add: draw_step_def)
  have e: "expected s' ch = expected s ch" for ch
    by (simp add: s' expected_def)
  have sp: "spare_ok pc s' = spare_ok pc s" for pc
    by (rule spare_ok_same) (simp_all add: s')
  have lg: "\<forall>(k, c, x)\<in>set (drawn s). x = expected s c"
    "\<forall>k c'. k \<le> cell s \<longrightarrow> (k, c', expected s c') \<in> set (drawn s)"
    using assms(1,2) by (simp_all add: invariant_def pass_log_def)
  have pl: "pass_log s' = True"
    unfolding pass_log_def e
    using lg True by (simp add: s' less_Suc_eq_le)
  show ?thesis
    using assms(1,2) unfolding invariant_def e sp pl
    by (simp add: s')
next
  case False
  have s': "s' = s\<lparr>draw_at := D_give_mutex\<rparr>"
    using assms False by (simp add: draw_step_def)
  have e: "expected s' ch = expected s ch" for ch
    by (simp add: s' expected_def)
  have sp: "spare_ok pc s' = spare_ok pc s" for pc
    by (rule spare_ok_same) (simp_all add: s')
  have lg: "\<forall>(k, c, x)\<in>set (drawn s). x = expected s c"
    "\<forall>k c'. k \<le> cell s \<longrightarrow> (k, c', expected s c') \<in> set (drawn s)"
    "cell s < N_CELLS"
    using assms(1,2) by (simp_all add: invariant_def pass_log_def)
  have pl: "pass_log s' = True"
    unfolding pass_log_def e
    using lg False by (simp add: s')
  show ?thesis
    using assms(1,2) unfolding invariant_def e sp pl
    by (simp add: s')
qed

lemma draw_step_give_mutex:
  assumes "invariant s" "draw_at s = D_give_mutex" "draw_step s = Next s'"
  shows "invariant s'"
proof -
  have s': "s' = s\<lparr>draw_at := D_take_semaphore, color_mutex := None\<rparr>"
    using assms by (simp add: draw_step_def)
  have e: "expected s' ch = expected s ch" for ch
    by (simp add: s' expected_def)
  have sp: "spare_ok pc s' = spare_ok pc s" for pc
    by (rule spare_ok_same) (simp_all add: s')
  have lg: "\<forall>(k, c, x)\<in>set (drawn s). x = expected s c"
    using assms(1,2) by (simp add: invariant_def pass_log_def)
  obtain t where t: "1 \<le> t" "\<And>c. expected s c = Frame t c"
    using pass_frame [OF assms(1)] assms(2) by auto
  have "one_frame (drawn s)"
    unfolding one_frame_def using lg t by (intro exI [of _ t]) simp
  then have pl: "pass_log s' = True"
    by (simp add: pass_log_def s')
  show ?thesis
    using assms(1,2) unfolding invariant_def e sp pl
    by (simp add: s')
qed

lemma draw_step_invariant:
  assumes "invariant s" "draw_step s = Next s'"
  shows "invariant s'"
  using assms
  by (cases "draw_at s")
     (blast intro: draw_step_take_semaphore draw_step_take_mutex draw_step_call draw_step_read
        draw_step_next draw_step_give_mutex)+

lemma draw_step_no_fault:
  assumes "invariant s"
  shows "draw_step s \<noteq> Fault"
proof (cases "draw_at s")
  case (D_read c)
  then show ?thesis by (rule draw_step_read_fault [OF assms])
qed (simp_all add: draw_step_def)

lemma step_invariant:
  assumes "invariant s" "step e s = Next s'"
  shows "invariant s'"
proof (cases e)
  case (Sim a)
  then show ?thesis using assms sim_step_invariant [of s a s'] by simp
next
  case Draw
  then show ?thesis using assms draw_step_invariant [of s s'] by simp
qed

lemma step_no_fault:
  assumes "invariant s"
  shows "step e s \<noteq> Fault"
proof (cases e)
  case (Sim a)
  then show ?thesis using sim_step_no_fault [OF assms, of a] by simp
next
  case Draw
  then show ?thesis using draw_step_no_fault [OF assms] by simp
qed

lemma exec_invariant:
  "invariant s \<Longrightarrow> exec sched s \<noteq> Fault \<and> (\<forall>s'. exec sched s = Next s' \<longrightarrow> invariant s')"
proof (induction sched arbitrary: s)
  case Nil
  then show ?case by simp
next
  case (Cons e es)
  show ?case
  proof (cases "step e s")
    case (Next s1)
    have "invariant s1"
      by (rule step_invariant [OF Cons.prems Next])
    then show ?thesis using Cons.IH [of s1] Next by simp
  next
    case Fault
    then show ?thesis
      using step_no_fault [OF Cons.prems, of e] by simp
  qed simp_all
qed


lemma covered_pass: "covered pc n k c \<Longrightarrow> reading pc \<or> pc = D_give_mutex"
  by (cases pc) simp_all

lemma invariant_one_frame:
  assumes "invariant s"
  shows "(\<exists>t\<ge>1. (\<forall>(k, c, x)\<in>set (drawn s). x = Frame t c)
           \<and> (\<forall>k c. covered (draw_at s) (cell s) k c \<longrightarrow> (k, c, Frame t c) \<in> set (drawn s))
           \<and> (reading (draw_at s) \<longrightarrow>
                 color_mutex s = Some DrawTask \<and> cell s < N_CELLS
                 \<and> (\<forall>c. heap (shared s) (args s c) = Some (Frame t c))
                 \<and> (\<forall>c. has_read (draw_at s) c \<longrightarrow> seen s c = Some (Frame t c))))
    \<and> (draw_at s = D_give_mutex \<longrightarrow> color_mutex s = Some DrawTask \<and> cell s + 1 = N_CELLS)"
proof (cases "reading (draw_at s) \<or> draw_at s = D_give_mutex")
  case True
  then have p: "in_pass (draw_at s)"
    using reading_in_pass by auto
  then have m: "color_mutex s = Some DrawTask"
    using assms by (auto simp add: invariant_def)
  have a: "reading (draw_at s) \<Longrightarrow> heap (shared s) (args s c) = Some (expected s c)" for c
    using assms by (simp add: invariant_def)
  have r: "has_read (draw_at s) c \<Longrightarrow> seen s c = Some (expected s c)" for c
    using assms by (simp add: invariant_def)
  have lg: "\<forall>(k, c, x)\<in>set (drawn s). x = expected s c"
    "\<forall>k c. covered (draw_at s) (cell s) k c \<longrightarrow> (k, c, expected s c) \<in> set (drawn s)"
    "cell s < N_CELLS" "draw_at s = D_give_mutex \<longrightarrow> cell s + 1 = N_CELLS"
    using assms True by (simp_all add: invariant_def pass_log_def)
  obtain t where t: "1 \<le> t" "\<And>c. expected s c = Frame t c"
    using pass_frame [OF assms p] by auto
  have "(\<forall>(k, c, x)\<in>set (drawn s). x = Frame t c)
           \<and> (\<forall>k c. covered (draw_at s) (cell s) k c \<longrightarrow> (k, c, Frame t c) \<in> set (drawn s))
           \<and> (reading (draw_at s) \<longrightarrow>
                 color_mutex s = Some DrawTask \<and> cell s < N_CELLS
                 \<and> (\<forall>c. heap (shared s) (args s c) = Some (Frame t c))
                 \<and> (\<forall>c. has_read (draw_at s) c \<longrightarrow> seen s c = Some (Frame t c)))"
    using lg m a r by (simp add: t(2))
  then show ?thesis
    using t(1) m lg(4) by blast
next
  case False
  then have "one_frame (drawn s)"
    using assms by (simp add: invariant_def pass_log_def)
  then obtain t where t: "1 \<le> t" "\<forall>(k, c, x)\<in>set (drawn s). x = Frame t c"
    unfolding one_frame_def by blast
  have nc: "\<not> covered (draw_at s) (cell s) k c" for k c
    using False covered_pass by blast
  show ?thesis
    using False t nc by blast
qed

text \<open>
  C1. For every schedule of the two tasks from the state in which \<^verbatim>\<open>setup\<close> launches
  them, no pointer that is not live is ever dereferenced, and in every state that is
  reached there is one tick \<open>t \<ge> 1\<close> of the simulation such that every read of the draw pass
  (one call of \<^verbatim>\<open>draw_color_field\<close>, logged in \<open>drawn\<close> from the call on) found the frame
  that tick \<open>t\<close> wrote for the channel read, none of them being written; the log holds the
  three channels of every cell the pass has been through; and while the render task is
  reading (it is at one of the three reads of a cell, or has just completed them) it holds
  the mutex and the three buffers behind the pointers it was passed hold the red, green
  and blue frames of that same tick \<open>t\<close>, so that the reads still to come in the pass find
  tick \<open>t\<close> too. When the pass is over and the mutex is about to be given back, the log holds
  all \<open>N_CELLS\<close> cells. So all the triples of one pass come from one committed frame: never
  a mix of two ticks, neither within a cell nor between two cells of the pass.
\<close>

theorem render_reads_one_frame:
  assumes "distinct [r, g, b]"
  shows "exec sched (launch r g b) \<noteq> Fault
    \<and> (\<forall>s. exec sched (launch r g b) = Next s \<longrightarrow>
          (\<exists>t\<ge>1. (\<forall>(k, c, x)\<in>set (drawn s). x = Frame t c)
             \<and> (\<forall>k c. covered (draw_at s) (cell s) k c \<longrightarrow> (k, c, Frame t c) \<in> set (drawn s))
             \<and> (reading (draw_at s) \<longrightarrow>
                   color_mutex s = Some DrawTask \<and> cell s < N_CELLS
                   \<and> (\<forall>c. heap (shared s) (args s c) = Some (Frame t c))
                   \<and> (\<forall>c. has_read (draw_at s) c \<longrightarrow> seen s c = Some (Frame t c))))
          \<and> (draw_at s = D_give_mutex \<longrightarrow> color_mutex s = Some DrawTask \<and> cell s + 1 = N_CELLS))"
proof -
  have "exec sched (launch r g b) \<noteq> Fault"
    and inv: "\<And>s. exec sched (launch r g b) = Next s \<Longrightarrow> invariant s"
    using exec_invariant [OF invariant_launch [OF assms], of sched] by blast+
  then show ?thesis
    using invariant_one_frame by blast
qed

text \<open>
  A schedule in which the simulation completes its first tick, the render task starts a
  pass, the simulation goes on to its mutex-acquire, and the render task reads the cells 0
  and 1: the six reads find the frames of tick 1.
\<close>

theorem render_reads_one_frame_witness:
  "exec (replicate 22 (Sim 3) @ [Draw, Draw, Draw, Sim 2] @ replicate 7 Draw) (launch 0 1 2) \<noteq> Fault
   \<and> (\<exists>s. exec (replicate 22 (Sim 3) @ [Draw, Draw, Draw, Sim 2] @ replicate 7 Draw) (launch 0 1 2)
            = Next s
        \<and> draw_at s = D_next \<and> cell s = 1 \<and> sim_at s = S_take_mutex
        \<and> color_mutex s = Some DrawTask
        \<and> drawn s = [(0, Red, Frame 1 Red), (0, Green, Frame 1 Green), (0, Blue, Frame 1 Blue),
                     (1, Red, Frame 1 Red), (1, Green, Frame 1 Green), (1, Blue, Frame 1 Blue)]
        \<and> heap (shared s) (args s Red) = Some (Frame 1 Red)
        \<and> heap (shared s) (args s Green) = Some (Frame 1 Green)
        \<and> heap (shared s) (args s Blue) = Some (Frame 1 Blue))"
proof -
  let ?sched = "replicate 22 (Sim 3) @ [Draw, Draw, Draw, Sim 2] @ replicate 7 Draw"
  have "\<exists>s. exec ?sched (launch 0 1 2) = Next s
        \<and> draw_at s = D_next \<and> cell s = 1 \<and> sim_at s = S_take_mutex
        \<and> drawn s = [(0, Red, Frame 1 Red), (0, Green, Frame 1 Green), (0, Blue, Frame 1 Blue),
                     (1, Red, Frame 1 Red), (1, Green, Frame 1 Green), (1, Blue, Frame 1 Blue)]"
    by (simp add: launch_def sim_step_def draw_step_def write_buffer_def numeral_eq_Suc
        N_CELLS_def)
  then obtain s where s: "exec ?sched (launch 0 1 2) = Next s"
    and pc: "draw_at s = D_next" "cell s = 1" "sim_at s = S_take_mutex"
    and d: "drawn s = [(0, Red, Frame 1 Red), (0, Green, Frame 1 Green), (0, Blue, Frame 1 Blue),
                     (1, Red, Frame 1 Red), (1, Green, Frame 1 Green), (1, Blue, Frame 1 Blue)]"
    by blast
  have dist: "distinct [0::nat, 1, 2]" by simp
  note th = render_reads_one_frame [OF dist, of ?sched]
  have nf: "exec ?sched (launch 0 1 2) \<noteq> Fault"
    using th by blast
  obtain t where t: "\<forall>(k, c, x)\<in>set (drawn s). x = Frame t c"
    and m: "color_mutex s = Some DrawTask"
    and a: "\<And>c. heap (shared s) (args s c) = Some (Frame t c)"
    using th s pc(1) by auto
  have "t = 1" using t d by simp
  then show ?thesis
    using nf s pc d m a by simp
qed

lemma invariant_backpressure:
  assumes "invariant s"
  shows "color_semaphore s \<le> 1
    \<and> card (dom (heap (shared s))) \<le> 4
    \<and> (sim_step a s = Blocked) = (sim_at s = S_take_mutex \<and> in_pass (draw_at s))
    \<and> (in_pass (draw_at s) \<longrightarrow> color_mutex s = Some DrawTask \<and> \<not> critical (sim_at s))"
proof -
  have sem: "color_semaphore s \<le> 1" using assms by (simp add: invariant_def)
  have m: "color_mutex s =
        (if critical (sim_at s) then Some SimTask
         else if in_pass (draw_at s) then Some DrawTask else None)"
    and x: "\<not> (critical (sim_at s) \<and> in_pass (draw_at s))"
    using assms by (simp_all add: invariant_def)
  have sp: "spare_ok (sim_at s) s" using assms by (simp add: invariant_def)
  have f: "card (fields (shared s)) \<le> 3"
    by (simp add: fields_def card_insert_le_m1)
  have "dom (heap (shared s)) = fields (shared s)
      \<or> (\<exists>y. dom (heap (shared s)) = insert y (fields (shared s)))"
    using sp by (cases "sim_at s") auto
  then have c: "card (dom (heap (shared s))) \<le> 4"
  proof
    assume "dom (heap (shared s)) = fields (shared s)"
    then show ?thesis using f by simp
  next
    assume "\<exists>y. dom (heap (shared s)) = insert y (fields (shared s))"
    then obtain y where "dom (heap (shared s)) = insert y (fields (shared s))" by blast
    then show ?thesis using f by (simp add: card_insert_le_m1 fields_def)
  qed
  have b: "(sim_step a s = Blocked) = (sim_at s = S_take_mutex \<and> in_pass (draw_at s))"
    using m by (cases "sim_at s") (auto simp add: sim_step_def split: option.splits)
  show ?thesis using sem c b m x by auto
qed


text \<open>
  C2, as stated, fails: a schedule in which the render task never steps (it is paused at
  its wait for the semaphore) lets the simulation task complete two ticks without
  blocking at the mutex, and the number of commits not yet consumed is then 2.
\<close>

theorem backlog_counterexample:
  "map_outcome backlog (exec (replicate 22 (Sim 3) @ replicate 22 (Sim 2)) (launch 0 1 2)) = Next 2
   \<and> map_outcome tick_no (exec (replicate 22 (Sim 3) @ replicate 22 (Sim 2)) (launch 0 1 2)) = Next 3
   \<and> map_outcome draw_at (exec (replicate 22 (Sim 3) @ replicate 22 (Sim 2)) (launch 0 1 2))
       = Next D_take_semaphore
   \<and> Draw \<notin> set (replicate 22 (Sim 3) @ replicate 22 (Sim 2))"
  by (simp add: launch_def sim_step_def draw_step_def write_buffer_def numeral_eq_Suc)

text \<open>
  C2, amended. In every state the two tasks can reach, the binary semaphore holds at
  most one notification and at most four colour buffers are live (the three channels and
  one spare); the simulation task is blocked exactly when it is at its mutex-acquire
  while the render task is inside a draw pass, and while the render task is inside a
  draw pass it holds the mutex and the simulation task is outside its commit. So a render
  task paused inside a draw pass stops the simulation at its next mutex-acquire, before
  any further commit, and a render task paused anywhere else does not stop it at all.
\<close>

theorem backpressure:
  assumes "distinct [r, g, b]" and "exec sched (launch r g b) = Next s"
  shows "color_semaphore s \<le> 1
    \<and> card (dom (heap (shared s))) \<le> 4
    \<and> (sim_step a s = Blocked) = (sim_at s = S_take_mutex \<and> in_pass (draw_at s))
    \<and> (in_pass (draw_at s) \<longrightarrow> color_mutex s = Some DrawTask \<and> \<not> critical (sim_at s))"
proof -
  have "invariant s"
    using exec_invariant [OF invariant_launch [OF assms(1)], of sched] assms(2) by blast
  then show ?thesis by (rule invariant_backpressure)
qed

theorem backpressure_witness:
  "\<exists>s. exec (replicate 22 (Sim 3) @ [Draw, Draw, Sim 2]) (launch 0 1 2) = Next s
     \<and> sim_at s = S_take_mutex \<and> draw_at s = D_call
     \<and> sim_step 2 s = Blocked \<and> color_mutex s = Some DrawTask
     \<and> color_semaphore s \<le> 1 \<and> card (dom (heap (shared s))) \<le> 4"
proof -
  have "\<exists>s. exec (replicate 22 (Sim 3) @ [Draw, Draw, Sim 2]) (launch 0 1 2) = Next s
     \<and> sim_at s = S_take_mutex \<and> draw_at s = D_call"
    by (simp add: launch_def sim_step_def draw_step_def write_buffer_def numeral_eq_Suc)
  then obtain s where s: "exec (replicate 22 (Sim 3) @ [Draw, Draw, Sim 2]) (launch 0 1 2) = Next s"
    and pc: "sim_at s = S_take_mutex" "draw_at s = D_call"
    by blast
  have d: "distinct [0::nat, 1, 2]" by simp
  show ?thesis
    using backpressure [OF d s, of 2] s pc by simp
qed

end
